theory Spec2Isabelle
  imports Main "HOL-Library.Multiset"
begin

section \<open>Data model (PathFinder.h, MultiUnitPathFinder.h)\<close>

text \<open>
  The C++ type \<open>int\<close> is modelled as the unbounded \<open>int\<close> of HOL and \<open>size_t\<close> as
  \<open>nat\<close>: coordinates, time steps and iteration counters of a loaded map stay far below
  the 32-bit range. The \<open>double\<close> costs of the search nodes only ever hold sums of
  \<open>1.0\<close> and Manhattan distances, which are whole numbers, so they are modelled as
  \<open>int\<close> too, and the comparator's test \<open>abs (a - b) < 1e-9\<close> is equality.
\<close>

datatype Position = Position (posX: int) (posY: int)

text \<open>
  \<open>struct BattleMap\<close>. The fields \<open>startPos\<close> and \<open>targetPos\<close> of the map are named
  \<open>mapStartPos\<close> and \<open>mapTargetPos\<close> here, since \<open>struct Unit\<close> has fields of the same
  names.
\<close>

record BattleMap =
  grid :: "int list list"
  width :: int
  height :: int
  mapStartPos :: Position
  mapTargetPos :: Position
  hasValidStart :: bool
  hasValidTarget :: bool
  allStartPositions :: "Position list"
  allTargetPositions :: "Position list"

text \<open>\<open>struct Unit\<close>; the field \<open>id\<close> is named \<open>unitId\<close>.\<close>

record Unit =
  unitId :: int
  startPos :: Position
  targetPos :: Position
  path :: "Position list"
  pathFound :: bool

text \<open>The constructor \<open>Unit(unitId, start, target)\<close>: empty path, nothing found.\<close>

definition mkUnit :: "int \<Rightarrow> Position \<Rightarrow> Position \<Rightarrow> Unit" where
  "mkUnit uid s t = \<lparr>unitId = uid, startPos = s, targetPos = t, path = [], pathFound = False\<rparr>"

text \<open>
  \<open>struct PathfindingResult\<close>; its field \<open>units\<close> is named \<open>resUnits\<close>, since the
  path finder itself has a member \<open>units\<close>.
\<close>

record PathfindingResult =
  resUnits :: "Unit list"
  allPathsFound :: bool
  totalSteps :: int
  stepByStepPositions :: "Position list list"

definition emptyResult :: PathfindingResult where
  "emptyResult = \<lparr>resUnits = [], allPathsFound = False, totalSteps = 0, stepByStepPositions = []\<rparr>"

datatype ConflictResolutionStrategy = SEQUENTIAL | PRIORITY_BASED | COOPERATIVE | WAIT_AND_RETRY

text \<open>
  The members of \<open>MultiUnitPathFinder\<close> (with those it inherits from \<open>PathFinder\<close>).
  \<open>occupiedPositionsAtTime\<close> is a \<open>std::map\<close> from a time step to a \<open>std::set\<close> of
  positions; \<open>unitPriorities\<close> a \<open>std::map\<close> from a unit id to its priority.
\<close>

record MultiUnitPathFinder =
  battleMap :: BattleMap
  moveDirections :: "(int \<times> int) list"
  units :: "Unit list"
  strategy :: ConflictResolutionStrategy
  unitPriorities :: "int \<rightharpoonup> int"
  occupiedPositionsAtTime :: "int \<rightharpoonup> Position set"

section \<open>The battle map\<close>

definition isValidPosition :: "BattleMap \<Rightarrow> int \<Rightarrow> int \<Rightarrow> bool" where
  "isValidPosition bm x y = (x \<ge> 0 \<and> x < width bm \<and> y \<ge> 0 \<and> y < height bm)"

text \<open>
  \<open>grid[y][x]\<close> is read only after the bounds check; on a map whose rows are shorter
  than \<open>width\<close> the C++ read is undefined, and the model reads whatever \<open>!\<close> gives.
\<close>

definition isReachable :: "BattleMap \<Rightarrow> int \<Rightarrow> int \<Rightarrow> bool" where
  "isReachable bm x y =
     (if \<not> isValidPosition bm x y then False
      else (let tile = grid bm ! nat y ! nat x in tile = -1 \<or> tile = 0 \<or> tile = 8))"

definition isMapLoaded :: "BattleMap \<Rightarrow> bool" where
  "isMapLoaded bm = (allStartPositions bm \<noteq> [] \<and> allTargetPositions bm \<noteq> [] \<and> grid bm \<noteq> [])"

section \<open>Collision detection\<close>

text \<open>
  \<open>findCollisions\<close>: for every time step and every pair \<open>i < j\<close> of entries of that
  step's position list that are equal, one entry \<open>(timeStep, i)\<close>. The loops over
  \<open>timeStep\<close>, \<open>i\<close> and \<open>j\<close> are the three list comprehensions, in the source's order.
\<close>

definition collisionsAtStep :: "int \<Rightarrow> Position list \<Rightarrow> (int \<times> int) list" where
  "collisionsAtStep timeStep positions =
     concat (map (\<lambda>i. concat (map (\<lambda>j. if positions ! i = positions ! j then [(timeStep, int i)] else [])
                                   [i + 1 ..< length positions]))
                 [0 ..< length positions])"

definition findCollisions :: "Position list list \<Rightarrow> (int \<times> int) list" where
  "findCollisions stepByStep =
     concat (map (\<lambda>timeStep. collisionsAtStep (int timeStep) (stepByStep ! timeStep))
                 [0 ..< length stepByStep])"

text \<open>
  \<open>hasCollision\<close>: a position seen twice in the list of one time step; an out-of-range
  time step has no collision.
\<close>

fun hasDuplicate :: "Position set \<Rightarrow> Position list \<Rightarrow> bool" where
  "hasDuplicate uniquePositions [] = False"
| "hasDuplicate uniquePositions (p # ps) =
     (if p \<in> uniquePositions then True else hasDuplicate (insert p uniquePositions) ps)"

definition hasCollision :: "Position list list \<Rightarrow> int \<Rightarrow> bool" where
  "hasCollision stepByStep timeStep =
     (if timeStep < 0 \<or> timeStep \<ge> int (length stepByStep) then False
      else hasDuplicate {} (stepByStep ! nat timeStep))"

section \<open>Step-by-step positions\<close>

text \<open>
  \<open>generateStepByStepPositions\<close>: the paths of the units with \<open>pathFound\<close>, each
  non-empty one extended with its last position up to the greatest length (the \<open>while\<close>
  loop pushes \<open>finalPos\<close> until the size is \<open>maxLength\<close>), then transposed; the number
  of rows is the size of the first path.
\<close>

definition extendPath :: "nat \<Rightarrow> Position list \<Rightarrow> Position list" where
  "extendPath maxLength p =
     (if p \<noteq> [] then p @ replicate (maxLength - length p) (last p) else p)"

definition maxPathLength :: "Position list list \<Rightarrow> nat" where
  "maxPathLength allPaths = foldl (\<lambda>maxLength p. max maxLength (length p)) 0 allPaths"

definition transposePaths :: "Position list list \<Rightarrow> Position list list" where
  "transposePaths allPaths =
     (if allPaths \<noteq> [] \<and> hd allPaths \<noteq> [] then
        map (\<lambda>timeStep. map (\<lambda>p. p ! timeStep) (filter (\<lambda>p. timeStep < length p) allPaths))
            [0 ..< length (hd allPaths)]
      else [])"

definition generateStepByStepPositions :: "Unit list \<Rightarrow> Position list list" where
  "generateStepByStepPositions unitsWithPaths =
     (let allPaths = map path (filter pathFound unitsWithPaths) in
      if allPaths = [] then []
      else transposePaths (map (extendPath (maxPathLength allPaths)) allPaths))"

section \<open>Temporal occupancy\<close>

text \<open>
  The lookup the source writes out wherever it asks whether a position is reserved at a
  time step: \<open>it != end && it->second.find(pos) != it->second.end()\<close>.
\<close>

definition isOccupiedAt :: "(int \<rightharpoonup> Position set) \<Rightarrow> int \<Rightarrow> Position \<Rightarrow> bool" where
  "isOccupiedAt occ timeStep p = (case occ timeStep of None \<Rightarrow> False | Some s \<Rightarrow> p \<in> s)"

text \<open>
  \<open>updateOccupiedPositions(path, startTime)\<close>: the loop over the path, the time step
  growing with the index. \<open>occupiedPositionsAtTime[timeStep]\<close> creates an empty set
  where the map has none. A position outside the map is not recorded (the source
  prints a warning).
\<close>

fun updateOccupiedPositions ::
  "BattleMap \<Rightarrow> (int \<rightharpoonup> Position set) \<Rightarrow> Position list \<Rightarrow> int \<Rightarrow> (int \<rightharpoonup> Position set)" where
  "updateOccupiedPositions bm occ [] timeStep = occ"
| "updateOccupiedPositions bm occ (p # rest) timeStep =
     updateOccupiedPositions bm
       (if isValidPosition bm (posX p) (posY p)
        then occ(timeStep \<mapsto> insert p (case occ timeStep of None \<Rightarrow> {} | Some s \<Rightarrow> s))
        else occ)
       rest (timeStep + 1)"

definition clearOccupiedPositions :: "MultiUnitPathFinder \<Rightarrow> MultiUnitPathFinder" where
  "clearOccupiedPositions pf = pf\<lparr>occupiedPositionsAtTime := Map.empty\<rparr>"

fun hasTemporalConflict :: "(int \<rightharpoonup> Position set) \<Rightarrow> Position list \<Rightarrow> int \<Rightarrow> bool" where
  "hasTemporalConflict occ [] timeStep = False"
| "hasTemporalConflict occ (p # rest) timeStep =
     (if isOccupiedAt occ timeStep p then True else hasTemporalConflict occ rest (timeStep + 1))"

definition canWaitAtPosition :: "BattleMap \<Rightarrow> (int \<rightharpoonup> Position set) \<Rightarrow> Position \<Rightarrow> int \<Rightarrow> bool" where
  "canWaitAtPosition bm occ p timeStep =
     (if \<not> isValidPosition bm (posX p) (posY p) \<or> \<not> isReachable bm (posX p) (posY p) then False
      else \<not> isOccupiedAt occ timeStep p)"

section \<open>Neighbours and move order (PathFinder.cpp)\<close>

definition defaultMoveDirections :: "(int \<times> int) list" where
  "defaultMoveDirections = [(1, 0), (0, 1), (-1, 0), (0, -1)]"

text \<open>
  \<open>isValidMoveOrder\<close> and \<open>parseMoveOrder\<close>: four characters, each of right, down, left
  and up once, in either case. \<open>parseMoveOrder\<close> leaves the directions as they are when
  the order is not valid.
\<close>

definition directionOf :: "char \<Rightarrow> (int \<times> int) option" where
  "directionOf c =
     (if c = CHR ''r'' \<or> c = CHR ''R'' then Some (1, 0)
      else if c = CHR ''d'' \<or> c = CHR ''D'' then Some (0, 1)
      else if c = CHR ''l'' \<or> c = CHR ''L'' then Some (-1, 0)
      else if c = CHR ''u'' \<or> c = CHR ''U'' then Some (0, -1)
      else None)"

definition isValidMoveOrder :: "string \<Rightarrow> bool" where
  "isValidMoveOrder moveOrder =
     (length moveOrder = 4 \<and> list_all (\<lambda>c. directionOf c \<noteq> None) moveOrder \<and>
      distinct (map directionOf moveOrder))"

definition parseMoveOrder :: "string \<Rightarrow> (int \<times> int) list \<Rightarrow> bool \<times> (int \<times> int) list" where
  "parseMoveOrder moveOrder dirs =
     (if \<not> isValidMoveOrder moveOrder then (False, dirs)
      else (True, map (\<lambda>c. the (directionOf c)) moveOrder))"

text \<open>The constructor \<open>PathFinder(moveOrder)\<close>: the default order when the given one is refused.\<close>

definition initialMoveDirections :: "string \<Rightarrow> (int \<times> int) list" where
  "initialMoveDirections moveOrder =
     (case parseMoveOrder moveOrder [] of
        (True, dirs) \<Rightarrow> dirs
      | (False, _) \<Rightarrow> defaultMoveDirections)"

definition calculateHeuristic :: "Position \<Rightarrow> Position \<Rightarrow> int" where
  "calculateHeuristic from to = abs (posX from - posX to) + abs (posY from - posY to)"

definition getNeighbors :: "BattleMap \<Rightarrow> (int \<times> int) list \<Rightarrow> Position \<Rightarrow> Position list" where
  "getNeighbors bm dirs p =
     concat (map (\<lambda>dir.
        (let newX = posX p + fst dir; newY = posY p + snd dir in
         if isReachable bm newX newY then [Position newX newY] else [])) dirs)"

definition getNeighborsWithOccupiedCheck ::
  "BattleMap \<Rightarrow> (int \<times> int) list \<Rightarrow> Position \<Rightarrow> int \<Rightarrow> (int \<rightharpoonup> Position set) \<Rightarrow> Position list" where
  "getNeighborsWithOccupiedCheck bm dirs p currentTime occ =
     concat (map (\<lambda>dir.
        (let newX = posX p + fst dir; newY = posY p + snd dir; newPos = Position newX newY in
         if \<not> isValidPosition bm newX newY then []
         else if \<not> isReachable bm newX newY then []
         else (let nextTime = currentTime + 1;
                   isOccupied = isOccupiedAt occ nextTime newPos
               in if \<not> isOccupied then [newPos] else []))) dirs)"

section \<open>What the C++ library leaves open\<close>

text \<open>
  Three library calls of the source do not fix their result: \<open>std::priority_queue\<close>
  returns any one of the entries of greatest priority, \<open>std::sort\<close> leaves elements
  that compare equivalent in any order, and \<open>std::shuffle\<close> draws a permutation from a
  random device. They are parameters of the model: \<open>heapTie\<close> and \<open>heapTieNode\<close> pick
  among the entries of equal priority (an index into their list), \<open>stdSort\<close> is the
  sort, \<open>stdShuffle\<close> the permutation of an attempt. The sort of the library the
  Makefile builds against is modelled further down.
\<close>

datatype PathNode =
  PathNode (pos: Position) (time: int) (gCost: int) (hCost: int) (fCost: int) (parent: "PathNode option")

datatype Node =
  Node (nodePos: Position) (nodeG: int) (nodeH: int) (nodeF: int) (nodeParent: "Node option")

record Platform =
  heapTie :: "PathNode list \<Rightarrow> nat"
  heapTieNode :: "Node list \<Rightarrow> nat"
  stdSort :: "(Unit \<Rightarrow> Unit \<Rightarrow> bool) \<Rightarrow> Unit list \<Rightarrow> Unit list"
  stdShuffle :: "nat \<Rightarrow> Unit list \<Rightarrow> Unit list"

text \<open>
  \<open>top()\<close> of a \<open>std::priority_queue\<close> with comparator \<open>cmp\<close>: an entry \<open>b\<close> that no
  entry beats (\<open>cmp b n\<close> says that \<open>n\<close> goes before \<open>b\<close>); among the entries equivalent
  to it the platform picks. \<open>pop()\<close> removes that entry.
\<close>

definition pqBest :: "('a \<Rightarrow> 'a \<Rightarrow> bool) \<Rightarrow> 'a list \<Rightarrow> 'a" where
  "pqBest cmp xs = foldl (\<lambda>b n. if cmp b n then n else b) (hd xs) (tl xs)"

definition pqTop :: "('a \<Rightarrow> 'a \<Rightarrow> bool) \<Rightarrow> ('a list \<Rightarrow> nat) \<Rightarrow> 'a list \<Rightarrow> 'a" where
  "pqTop cmp tie xs =
     (let b = pqBest cmp xs;
          cands = filter (\<lambda>n. \<not> cmp n b \<and> \<not> cmp b n) xs
      in cands ! (tie cands mod length cands))"

section \<open>The temporal A* search\<close>

definition mkPathNode :: "Position \<Rightarrow> int \<Rightarrow> int \<Rightarrow> int \<Rightarrow> PathNode option \<Rightarrow> PathNode" where
  "mkPathNode p t g h par = PathNode p t g h (g + h) par"

definition PathNodeComparator :: "PathNode \<Rightarrow> PathNode \<Rightarrow> bool" where
  "PathNodeComparator a b = (if fCost a = fCost b then hCost a > hCost b else fCost a > fCost b)"

text \<open>
  \<open>positionTimeKey\<close> prints \<open>x,y,time\<close> into a string; the model keeps the pair, which
  determines the string and is determined by it.
\<close>

definition positionTimeKey :: "Position \<Rightarrow> int \<Rightarrow> Position \<times> int" where
  "positionTimeKey p t = (p, t)"

fun nodeChain :: "PathNode \<Rightarrow> Position list" where
  "nodeChain (PathNode p t g h f par) = p # (case par of None \<Rightarrow> [] | Some n \<Rightarrow> nodeChain n)"

definition reconstructPathFromNode :: "PathNode \<Rightarrow> Position list" where
  "reconstructPathFromNode node = rev (nodeChain node)"

record SearchState =
  openSet :: "PathNode list"
  closedSet :: "(Position \<times> int) set"
  openSetNodes :: "Position \<times> int \<rightharpoonup> PathNode"
  iterations :: int

text \<open>
  The body the source runs for every neighbour, and once more for the wait in place:
  skip a key of the closed set; push a new node when the open set has none under the
  key; otherwise lower the cost of the node that is there (the node is shared between
  the queue and \<open>openSetNodes\<close>, so both see the change).
\<close>

definition considerSuccessor :: "Position \<Rightarrow> PathNode \<Rightarrow> SearchState \<Rightarrow> Position \<Rightarrow> SearchState" where
  "considerSuccessor target current st p =
     (let nextTime = time current + 1;
          key = positionTimeKey p nextTime
      in if key \<in> closedSet st then st
         else (let tentativeGCost = gCost current + 1 in
               case openSetNodes st key of
                 None \<Rightarrow>
                   (let n = mkPathNode p nextTime tentativeGCost (calculateHeuristic p target) (Some current)
                    in st\<lparr>openSet := openSet st @ [n], openSetNodes := (openSetNodes st)(key \<mapsto> n)\<rparr>)
               | Some existing \<Rightarrow>
                   if tentativeGCost < gCost existing then
                     (let n = PathNode (pos existing) (time existing) tentativeGCost (hCost existing)
                                (tentativeGCost + hCost existing) (Some current)
                      in st\<lparr>openSet := map (\<lambda>m. if m = existing then n else m) (openSet st),
                            openSetNodes := (openSetNodes st)(key \<mapsto> n)\<rparr>)
                   else st))"

text \<open>
  The successor positions of a node, all at time \<open>time + 1\<close>: the neighbours that are
  free then, in move order, and the node's own position when the unit can wait there.
\<close>

definition successorPositions ::
  "BattleMap \<Rightarrow> (int \<times> int) list \<Rightarrow> (int \<rightharpoonup> Position set) \<Rightarrow> PathNode \<Rightarrow> Position list" where
  "successorPositions bm dirs occ current =
     getNeighborsWithOccupiedCheck bm dirs (pos current) (time current) occ @
     (if canWaitAtPosition bm occ (pos current) (time current + 1) then [pos current] else [])"

definition expandNode ::
  "BattleMap \<Rightarrow> (int \<times> int) list \<Rightarrow> (int \<rightharpoonup> Position set) \<Rightarrow> Position \<Rightarrow> PathNode \<Rightarrow> SearchState \<Rightarrow> SearchState" where
  "expandNode bm dirs occ target current st =
     foldl (considerSuccessor target current) st (successorPositions bm dirs occ current)"

lemma iterations_considerSuccessor [simp]:
  "iterations (considerSuccessor target current st p) = iterations st"
  by (simp add: considerSuccessor_def Let_def split: option.splits)

lemma iterations_foldl_considerSuccessor [simp]:
  "iterations (foldl (considerSuccessor target current) st ps) = iterations st"
  by (induction ps arbitrary: st) simp_all

lemma iterations_expandNode [simp]:
  "iterations (expandNode bm dirs occ target current st) = iterations st"
  by (simp add: expandNode_def)

text \<open>
  The main loop of \<open>findPathAStarWithOccupiedCheck\<close>. It returns the path together with
  the iteration counter, which the source prints when it leaves the loop.
\<close>

function astarLoop ::
  "Platform \<Rightarrow> BattleMap \<Rightarrow> (int \<times> int) list \<Rightarrow> (int \<rightharpoonup> Position set) \<Rightarrow> Position \<Rightarrow> int \<Rightarrow>
   SearchState \<Rightarrow> Position list \<times> int" where
  "astarLoop env bm dirs occ target maxIterations st =
     (if openSet st \<noteq> [] \<and> iterations st < maxIterations then
        (let current = pqTop PathNodeComparator (heapTie env) (openSet st);
             currentKey = positionTimeKey (pos current) (time current);
             st1 = st\<lparr>openSet := remove1 current (openSet st),
                      openSetNodes := (openSetNodes st)(currentKey := None),
                      iterations := iterations st + 1\<rparr>
         in if pos current = target then (reconstructPathFromNode current, iterations st1)
            else astarLoop env bm dirs occ target maxIterations
                   (expandNode bm dirs occ target current
                      (st1\<lparr>closedSet := insert currentKey (closedSet st1)\<rparr>)))
      else ([], iterations st))"
  by pat_completeness auto
termination
  by (relation "measure (\<lambda>(env, bm, dirs, occ, target, maxIterations, st). nat (maxIterations - iterations st))")
     auto

declare astarLoop.simps [simp del]

definition astarSearch ::
  "Platform \<Rightarrow> BattleMap \<Rightarrow> (int \<times> int) list \<Rightarrow> (int \<rightharpoonup> Position set) \<Rightarrow> Position \<Rightarrow> Position \<Rightarrow>
   Position list \<times> int" where
  "astarSearch env bm dirs occ start target =
     (if \<not> isMapLoaded bm then ([], 0)
      else if \<not> isValidPosition bm (posX start) (posY start) \<or>
              \<not> isValidPosition bm (posX target) (posY target) then ([], 0)
      else if \<not> isReachable bm (posX start) (posY start) \<or>
              \<not> isReachable bm (posX target) (posY target) then ([], 0)
      else (let startNode = mkPathNode start 0 0 (calculateHeuristic start target) None;
                startKey = positionTimeKey start 0;
                maxIterations = width bm * height bm * 100
            in astarLoop env bm dirs occ target maxIterations
                 \<lparr>openSet = [startNode], closedSet = {}, openSetNodes = [startKey \<mapsto> startNode],
                  iterations = 0\<rparr>))"

definition findPathAStarWithOccupiedCheck ::
  "Platform \<Rightarrow> MultiUnitPathFinder \<Rightarrow> Position \<Rightarrow> Position \<Rightarrow> Position list" where
  "findPathAStarWithOccupiedCheck env pf start target =
     fst (astarSearch env (battleMap pf) (moveDirections pf) (occupiedPositionsAtTime pf) start target)"

section \<open>The plain A* search (PathFinder.cpp)\<close>

text \<open>
  \<open>findPathAStar\<close> of the base class: no time, no occupancy, no iteration cap. The loop
  ends because a position enters the open set at most once: every pass either pushes a
  position that was in neither set before, or leaves the sets as they are and takes one
  node from the queue.
\<close>

definition mkNode :: "Position \<Rightarrow> int \<Rightarrow> int \<Rightarrow> Node option \<Rightarrow> Node" where
  "mkNode p g h par = Node p g h (g + h) par"

definition NodeComparator :: "Node \<Rightarrow> Node \<Rightarrow> bool" where
  "NodeComparator a b = (if nodeF a = nodeF b then nodeH a > nodeH b else nodeF a > nodeF b)"

fun plainChain :: "Node \<Rightarrow> Position list" where
  "plainChain (Node p g h f par) = p # (case par of None \<Rightarrow> [] | Some n \<Rightarrow> plainChain n)"

definition reconstructPath :: "Node \<Rightarrow> Position list" where
  "reconstructPath node = rev (plainChain node)"

text \<open>
  The state of the loop: the queue, \<open>closedSet\<close> and \<open>openSetPositions\<close> (the first two
  are named \<open>openSetP\<close> and \<open>closedSetP\<close>, apart from those of the temporal search).
\<close>

record PlainState =
  openSetP :: "Node list"
  closedSetP :: "Position set"
  openSetPositions :: "Position set"

definition visitNeighbor :: "Position \<Rightarrow> Node \<Rightarrow> PlainState \<Rightarrow> Position \<Rightarrow> PlainState" where
  "visitNeighbor target current st neighbor =
     (if neighbor \<in> closedSetP st then st
      else (let tentativeGCost = nodeG current + 1 in
            if neighbor \<notin> openSetPositions st then
              st\<lparr>openSetP := openSetP st @
                      [mkNode neighbor tentativeGCost (calculateHeuristic neighbor target) (Some current)],
                 openSetPositions := insert neighbor (openSetPositions st)\<rparr>
            else st))"

definition validCells :: "BattleMap \<Rightarrow> Position set" where
  "validCells bm = {p. isValidPosition bm (posX p) (posY p)}"

definition plainMeasure :: "BattleMap \<Rightarrow> PlainState \<Rightarrow> nat \<times> nat" where
  "plainMeasure bm st =
     (card (validCells bm - (closedSetP st \<union> openSetPositions st)), length (openSetP st))"

lemma finite_validCells: "finite (validCells bm)"
proof -
  have "validCells bm \<subseteq> (\<lambda>(x, y). Position x y) ` ({0 ..< width bm} \<times> {0 ..< height bm})"
  proof
    fix p assume "p \<in> validCells bm"
    then have "(posX p, posY p) \<in> {0 ..< width bm} \<times> {0 ..< height bm}"
      by (simp add: validCells_def isValidPosition_def)
    then show "p \<in> (\<lambda>(x, y). Position x y) ` ({0 ..< width bm} \<times> {0 ..< height bm})"
      by (metis (mono_tags, lifting) Position.collapse case_prod_conv image_eqI)
  qed
  then show ?thesis by (rule finite_subset) simp
qed

lemma pqBest_in_set: "xs \<noteq> [] \<Longrightarrow> pqBest cmp xs \<in> set xs"
proof -
  have f: "foldl (\<lambda>b n. if cmp b n then n else b) b ys \<in> insert b (set ys)" for b ys
    by (induction ys arbitrary: b) auto
  assume "xs \<noteq> []"
  then show ?thesis
    using f[of "hd xs" "tl xs"] by (cases xs) (auto simp: pqBest_def)
qed

lemma pqTop_in_set:
  assumes "xs \<noteq> []" and irr: "\<And>a. \<not> cmp a a"
  shows "pqTop cmp tie xs \<in> set xs"
proof -
  let ?b = "pqBest cmp xs"
  let ?c = "filter (\<lambda>n. \<not> cmp n ?b \<and> \<not> cmp ?b n) xs"
  have "?b \<in> set ?c" using pqBest_in_set[OF assms(1), of cmp] irr by simp
  then have "?c \<noteq> []" by (metis empty_iff empty_set)
  then have "tie ?c mod length ?c < length ?c" by simp
  then have "?c ! (tie ?c mod length ?c) \<in> set ?c" by (rule nth_mem)
  moreover have "set ?c \<subseteq> set xs" by (rule filter_is_subset)
  ultimately have "?c ! (tie ?c mod length ?c) \<in> set xs" by (rule rev_subsetD)
  then show ?thesis unfolding pqTop_def Let_def .
qed

lemma getNeighbors_valid: "n \<in> set (getNeighbors bm dirs p) \<Longrightarrow> n \<in> validCells bm"
  by (auto simp: getNeighbors_def validCells_def isReachable_def Let_def split: if_splits)

lemma visitNeighbor_measure:
  assumes "n \<in> validCells bm"
  shows "visitNeighbor target current st n = st \<or>
         (plainMeasure bm (visitNeighbor target current st n), plainMeasure bm st) \<in> less_than <*lex*> less_than"
proof (cases "n \<in> closedSetP st \<or> n \<in> openSetPositions st")
  case True
  then show ?thesis by (auto simp: visitNeighbor_def)
next
  case False
  have "validCells bm - (closedSetP st \<union> insert n (openSetPositions st))
          \<subset> validCells bm - (closedSetP st \<union> openSetPositions st)"
    using False assms by auto
  then have "card (validCells bm - (closedSetP st \<union> insert n (openSetPositions st)))
          < card (validCells bm - (closedSetP st \<union> openSetPositions st))"
    by (intro psubset_card_mono) (simp_all add: finite_validCells)
  then show ?thesis using False
    by (simp add: visitNeighbor_def plainMeasure_def Let_def)
qed

lemma trans_lex_nat: "trans (less_than <*lex*> less_than)"
  by (intro trans_lex_prod) simp_all

lemma foldl_visitNeighbor_measure:
  assumes "set ns \<subseteq> validCells bm"
  shows "foldl (visitNeighbor target current) st ns = st \<or>
         (plainMeasure bm (foldl (visitNeighbor target current) st ns), plainMeasure bm st)
           \<in> less_than <*lex*> less_than"
  using assms
proof (induction ns arbitrary: st)
  case Nil
  then show ?case by simp
next
  case (Cons n ns)
  let ?s = "visitNeighbor target current st n"
  from Cons.prems have n: "n \<in> validCells bm" and ns: "set ns \<subseteq> validCells bm" by auto
  from Cons.IH[OF ns, of ?s] visitNeighbor_measure[OF n, of target current st]
  show ?case
    by (auto dest: transD[OF trans_lex_nat])
qed

function plainLoop ::
  "Platform \<Rightarrow> BattleMap \<Rightarrow> (int \<times> int) list \<Rightarrow> Position \<Rightarrow> PlainState \<Rightarrow> Position list" where
  "plainLoop env bm dirs target st =
     (if openSetP st \<noteq> [] then
        (let current = pqTop NodeComparator (heapTieNode env) (openSetP st);
             st1 = st\<lparr>openSetP := remove1 current (openSetP st),
                      openSetPositions := openSetPositions st - {nodePos current}\<rparr>
         in if nodePos current = target then reconstructPath current
            else plainLoop env bm dirs target
                   (foldl (visitNeighbor target current)
                      (st1\<lparr>closedSetP := insert (nodePos current) (closedSetP st1)\<rparr>)
                      (getNeighbors bm dirs (nodePos current))))
      else [])"
  by pat_completeness auto

lemma pop_measure:
  assumes "current \<in> set (openSetP st)"
  shows "(plainMeasure bm (st\<lparr>openSetP := remove1 current (openSetP st),
                              openSetPositions := openSetPositions st - {nodePos current},
                              closedSetP := insert (nodePos current) (closedSetP st)\<rparr>),
          plainMeasure bm st) \<in> less_than <*lex*> less_than"
proof -
  from assms have l: "length (remove1 current (openSetP st)) < length (openSetP st)"
    by (simp add: length_remove1) (cases "openSetP st"; simp)
  have "validCells bm - (insert (nodePos current) (closedSetP st) \<union> (openSetPositions st - {nodePos current}))
          \<subseteq> validCells bm - (closedSetP st \<union> openSetPositions st)"
    by auto
  then have "card (validCells bm - (insert (nodePos current) (closedSetP st) \<union> (openSetPositions st - {nodePos current})))
          \<le> card (validCells bm - (closedSetP st \<union> openSetPositions st))"
    by (intro card_mono) (simp_all add: finite_validCells)
  with l show ?thesis
    by (auto simp: plainMeasure_def)
qed

termination plainLoop
proof (relation "inv_image (less_than <*lex*> less_than) (\<lambda>(env, bm, dirs, target, st). plainMeasure bm st)")
  show "wf (inv_image (less_than <*lex*> less_than) (\<lambda>(env, bm, dirs, target, st). plainMeasure bm st))"
    by (intro wf_inv_image wf_lex_prod wf_less_than)
next
  fix env :: Platform and bm dirs target and st :: PlainState and current st1
  assume ne: "openSetP st \<noteq> []"
    and c: "current = pqTop NodeComparator (heapTieNode env) (openSetP st)"
    and s1: "st1 = st\<lparr>openSetP := remove1 current (openSetP st),
                       openSetPositions := openSetPositions st - {nodePos current}\<rparr>"
    and "nodePos current \<noteq> target"
  let ?s2 = "st1\<lparr>closedSetP := insert (nodePos current) (closedSetP st1)\<rparr>"
  let ?s3 = "foldl (visitNeighbor target current) ?s2 (getNeighbors bm dirs (nodePos current))"
  have s2: "?s2 = st\<lparr>openSetP := remove1 current (openSetP st),
                       openSetPositions := openSetPositions st - {nodePos current},
                       closedSetP := insert (nodePos current) (closedSetP st)\<rparr>"
    by (simp add: s1)
  have a: "(plainMeasure bm ?s2, plainMeasure bm st) \<in> less_than <*lex*> less_than"
    unfolding s2 by (rule pop_measure) (simp add: c pqTop_in_set[OF ne] NodeComparator_def)
  have "set (getNeighbors bm dirs (nodePos current)) \<subseteq> validCells bm"
    using getNeighbors_valid by blast
  from foldl_visitNeighbor_measure[OF this, of target current ?s2]
  have "(plainMeasure bm ?s3, plainMeasure bm st) \<in> less_than <*lex*> less_than"
    using a by (auto dest: transD[OF trans_lex_nat])
  then show "((env, bm, dirs, target, ?s3), (env, bm, dirs, target, st))
      \<in> inv_image (less_than <*lex*> less_than) (\<lambda>(env, bm, dirs, target, st). plainMeasure bm st)"
    by simp
qed


definition findPathAStar :: "Platform \<Rightarrow> BattleMap \<Rightarrow> (int \<times> int) list \<Rightarrow> Position \<Rightarrow> Position \<Rightarrow> Position list" where
  "findPathAStar env bm dirs start target =
     (if \<not> isMapLoaded bm then []
      else (let startNode = mkNode start 0 (calculateHeuristic start target) None
            in plainLoop env bm dirs target
                 \<lparr>openSetP = [startNode], closedSetP = {}, openSetPositions = {start}\<rparr>))"

section \<open>The four strategies\<close>

subsection \<open>Sequential\<close>

text \<open>
  The checks the loop of \<open>findPathsSequential\<close> makes on a unit, in the source's order;
  each of the first four ends the unit's turn (\<open>continue\<close>), and only the last one calls
  the temporal search.
\<close>

datatype SequentialBranch =
  InvalidPosition | StartNotReachable | TargetNotReachable | AlreadyAtTarget | RunSearch

definition sequentialBranch :: "BattleMap \<Rightarrow> Unit \<Rightarrow> SequentialBranch" where
  "sequentialBranch bm unit =
     (if \<not> isValidPosition bm (posX (startPos unit)) (posY (startPos unit)) \<or>
         \<not> isValidPosition bm (posX (targetPos unit)) (posY (targetPos unit)) then InvalidPosition
      else if \<not> isReachable bm (posX (startPos unit)) (posY (startPos unit)) then StartNotReachable
      else if \<not> isReachable bm (posX (targetPos unit)) (posY (targetPos unit)) then TargetNotReachable
      else if startPos unit = targetPos unit then AlreadyAtTarget
      else RunSearch)"

text \<open>
  One turn of the loop: the unit with its result, and the path finder with the
  occupancy the turn leaves. The fallback call of the plain search after a failure only
  chooses the message that is printed.
\<close>

definition processUnit :: "Platform \<Rightarrow> MultiUnitPathFinder \<Rightarrow> Unit \<Rightarrow> Unit \<times> MultiUnitPathFinder" where
  "processUnit env pf unit =
     (case sequentialBranch (battleMap pf) unit of
        InvalidPosition \<Rightarrow> (unit\<lparr>pathFound := False\<rparr>, pf)
      | StartNotReachable \<Rightarrow> (unit\<lparr>pathFound := False\<rparr>, pf)
      | TargetNotReachable \<Rightarrow> (unit\<lparr>pathFound := False\<rparr>, pf)
      | AlreadyAtTarget \<Rightarrow>
          (unit\<lparr>path := [startPos unit], pathFound := True\<rparr>,
           pf\<lparr>occupiedPositionsAtTime :=
                updateOccupiedPositions (battleMap pf) (occupiedPositionsAtTime pf) [startPos unit] 0\<rparr>)
      | RunSearch \<Rightarrow>
          (let p = findPathAStarWithOccupiedCheck env pf (startPos unit) (targetPos unit) in
           if p \<noteq> [] then
             (unit\<lparr>path := p, pathFound := True\<rparr>,
              pf\<lparr>occupiedPositionsAtTime :=
                   updateOccupiedPositions (battleMap pf) (occupiedPositionsAtTime pf) p 0\<rparr>)
           else
             (let fallbackPath = findPathAStar env (battleMap pf) (moveDirections pf)
                                   (startPos unit) (targetPos unit)
              in (unit\<lparr>pathFound := False\<rparr>, pf))))"

fun sequentialLoop ::
  "Platform \<Rightarrow> MultiUnitPathFinder \<Rightarrow> Unit list \<Rightarrow> Unit list \<times> MultiUnitPathFinder" where
  "sequentialLoop env pf [] = ([], pf)"
| "sequentialLoop env pf (unit # rest) =
     (let (unit', pf') = processUnit env pf unit;
          (rest', pf'') = sequentialLoop env pf' rest
      in (unit' # rest', pf''))"

definition findPathsSequential ::
  "Platform \<Rightarrow> MultiUnitPathFinder \<Rightarrow> PathfindingResult \<times> MultiUnitPathFinder" where
  "findPathsSequential env pf =
     (let (us, pf') = sequentialLoop env (clearOccupiedPositions pf) (units pf)
      in (\<lparr>resUnits = us, allPathsFound = list_all pathFound us, totalSteps = 0,
           stepByStepPositions = []\<rparr>, pf'))"

subsection \<open>Priority-based\<close>

definition getUnitPriority :: "MultiUnitPathFinder \<Rightarrow> int \<Rightarrow> int" where
  "getUnitPriority pf uid = (case unitPriorities pf uid of Some p \<Rightarrow> p | None \<Rightarrow> 0)"

text \<open>The comparator handed to \<open>std::sort\<close>: higher priority first.\<close>

definition byPriority :: "MultiUnitPathFinder \<Rightarrow> Unit \<Rightarrow> Unit \<Rightarrow> bool" where
  "byPriority pf a b = (getUnitPriority pf (unitId a) > getUnitPriority pf (unitId b))"

definition findPathsPriorityBased ::
  "Platform \<Rightarrow> MultiUnitPathFinder \<Rightarrow> PathfindingResult \<times> MultiUnitPathFinder" where
  "findPathsPriorityBased env pf =
     (let pf0 = clearOccupiedPositions pf;
          sortedUnits = stdSort env (byPriority pf0) (units pf0);
          originalUnits = units pf0;
          (sequentialResult, pf1) = findPathsSequential env (pf0\<lparr>units := sortedUnits\<rparr>)
      in (sequentialResult, pf1\<lparr>units := originalUnits\<rparr>))"

subsection \<open>Cooperative\<close>

text \<open>
  The temporary map of a unit: every start and target marker inside \<open>width\<close> by
  \<open>height\<close> becomes ground, then the unit's start cell is marked 0 and its target cell 8.
  The two writes are unchecked in the source; where the cell is outside the grid the C++
  behaviour is undefined and the model leaves the grid as it is.
\<close>

definition clearMarkers :: "BattleMap \<Rightarrow> int list list" where
  "clearMarkers tempMap =
     map (\<lambda>(y, row).
            if int y < height tempMap then
              map (\<lambda>(x, tile). if int x < width tempMap \<and> (tile = 0 \<or> tile = 8) then -1 else tile)
                  (enumerate 0 row)
            else row)
         (enumerate 0 (grid tempMap))"

definition setTile :: "int list list \<Rightarrow> Position \<Rightarrow> int \<Rightarrow> int list list" where
  "setTile g p v =
     (if 0 \<le> posX p \<and> 0 \<le> posY p then g[nat (posY p) := (g ! nat (posY p))[nat (posX p) := v]]
      else g)"

definition unitTempMap :: "BattleMap \<Rightarrow> Unit \<Rightarrow> BattleMap" where
  "unitTempMap bm unit =
     (let tempMap = bm\<lparr>mapStartPos := startPos unit, mapTargetPos := targetPos unit\<rparr>
      in tempMap\<lparr>grid := setTile (setTile (clearMarkers tempMap) (startPos unit) 0) (targetPos unit) 8\<rparr>)"

text \<open>
  One pass over the units: the plain search \<open>findPathAStar()\<close> on the unit's temporary
  map, from the map's \<open>startPos\<close> to its \<open>targetPos\<close>; a path that is found is written
  into the occupancy.
\<close>

fun cooperativePass ::
  "Platform \<Rightarrow> MultiUnitPathFinder \<Rightarrow> Unit list \<Rightarrow> Unit list \<times> MultiUnitPathFinder \<times> bool" where
  "cooperativePass env pf [] = ([], pf, True)"
| "cooperativePass env pf (unit # rest) =
     (let tempMap = unitTempMap (battleMap pf) unit;
          p = findPathAStar env tempMap (moveDirections pf) (mapStartPos tempMap) (mapTargetPos tempMap);
          (unit', pf') =
             (if p \<noteq> [] then
                (unit\<lparr>path := p, pathFound := True\<rparr>,
                 pf\<lparr>occupiedPositionsAtTime :=
                      updateOccupiedPositions (battleMap pf) (occupiedPositionsAtTime pf) p 0\<rparr>)
              else (unit\<lparr>pathFound := False\<rparr>, pf));
          (rest', pf'', allFound) = cooperativePass env pf' rest
      in (unit' # rest', pf'', p \<noteq> [] \<and> allFound))"

definition maxAttempts :: int where
  "maxAttempts = 3"

function cooperativeAttempts ::
  "Platform \<Rightarrow> int \<Rightarrow> Unit list \<Rightarrow> MultiUnitPathFinder \<Rightarrow> Unit list \<times> bool \<times> MultiUnitPathFinder" where
  "cooperativeAttempts env attempt us pf =
     (if attempt < maxAttempts then
        (let (us0, pf0) = (if attempt > 0 then (stdShuffle env (nat attempt) us, clearOccupiedPositions pf)
                           else (us, pf));
             (us1, pf1, allFound) = cooperativePass env pf0 us0
         in if allFound then (us1, True, pf1)
            else cooperativeAttempts env (attempt + 1) us1 pf1)
      else (us, False, pf))"
  by pat_completeness auto
termination
  by (relation "measure (\<lambda>(env, attempt, us, pf). nat (maxAttempts - attempt))") auto

declare cooperativeAttempts.simps [simp del]

definition findPathsCooperative ::
  "Platform \<Rightarrow> MultiUnitPathFinder \<Rightarrow> PathfindingResult \<times> MultiUnitPathFinder" where
  "findPathsCooperative env pf =
     (let (us, found, pf') = cooperativeAttempts env 0 (units pf) (clearOccupiedPositions pf)
      in (\<lparr>resUnits = us, allPathsFound = found, totalSteps = 0, stepByStepPositions = []\<rparr>, pf'))"

subsection \<open>Wait and retry\<close>

text \<open>
  One reported conflict \<open>(timeStep, unitIndex)\<close>: the unit's position of the step before
  is inserted at \<open>timeStep\<close>. \<open>unitIndex\<close> comes from \<open>findCollisions\<close> and is never
  negative.
\<close>

definition insertWait :: "Unit list \<Rightarrow> int \<times> int \<Rightarrow> Unit list" where
  "insertWait us conflict =
     (let timeStep = fst conflict; unitIndex = snd conflict in
      if unitIndex < int (length us) \<and> timeStep > 0 then
        (let p = path (us ! nat unitIndex) in
         if timeStep < int (length p) then
           us[nat unitIndex := (us ! nat unitIndex)
                \<lparr>path := take (nat timeStep) p @ [p ! (nat timeStep - 1)] @ drop (nat timeStep) p\<rparr>]
         else us)
      else us)"

definition findPathsWithWaiting ::
  "Platform \<Rightarrow> MultiUnitPathFinder \<Rightarrow> PathfindingResult \<times> MultiUnitPathFinder" where
  "findPathsWithWaiting env pf =
     (let (result, pf') = findPathsSequential env pf in
      if allPathsFound result then
        (let conflicts = findCollisions (generateStepByStepPositions (resUnits result))
         in (result\<lparr>resUnits := foldl insertWait (resUnits result) conflicts\<rparr>, pf'))
      else (result, pf'))"

subsection \<open>The entry point\<close>

definition findPathsForAllUnits ::
  "Platform \<Rightarrow> MultiUnitPathFinder \<Rightarrow> PathfindingResult \<times> MultiUnitPathFinder" where
  "findPathsForAllUnits env pf =
     (if units pf = [] then (emptyResult, pf)
      else if \<not> isMapLoaded (battleMap pf) then (emptyResult, pf)
      else (let (result, pf') =
                  (case strategy pf of
                     SEQUENTIAL \<Rightarrow> findPathsSequential env pf
                   | PRIORITY_BASED \<Rightarrow> findPathsPriorityBased env pf
                   | COOPERATIVE \<Rightarrow> findPathsCooperative env pf
                   | WAIT_AND_RETRY \<Rightarrow> findPathsWithWaiting env pf);
                hasAnyPath = list_ex pathFound (resUnits result)
            in if hasAnyPath then
                 (let steps = generateStepByStepPositions (resUnits result)
                  in (result\<lparr>stepByStepPositions := steps, totalSteps := int (length steps)\<rparr>, pf'))
               else (result, pf')))"

section \<open>Unit management\<close>

text \<open>
  \<open>addUnit(unitId, startPos, targetPos)\<close>: the loop over the units stops at the first one
  with the id and overwrites it (\<open>Some\<close> of the new list); when the loop finds none
  (\<open>None\<close>) a new unit goes to the end, with the default priority 0.
\<close>

fun updateExisting :: "int \<Rightarrow> Position \<Rightarrow> Position \<Rightarrow> Unit list \<Rightarrow> Unit list option" where
  "updateExisting uid s t [] = None"
| "updateExisting uid s t (unit # rest) =
     (if unitId unit = uid
      then Some (unit\<lparr>startPos := s, targetPos := t, path := [], pathFound := False\<rparr> # rest)
      else map_option ((#) unit) (updateExisting uid s t rest))"

definition addUnit :: "MultiUnitPathFinder \<Rightarrow> int \<Rightarrow> Position \<Rightarrow> Position \<Rightarrow> MultiUnitPathFinder" where
  "addUnit pf uid s t =
     (case updateExisting uid s t (units pf) of
        Some us \<Rightarrow> pf\<lparr>units := us\<rparr>
      | None \<Rightarrow> pf\<lparr>units := units pf @ [mkUnit uid s t],
                   unitPriorities := (unitPriorities pf)(uid \<mapsto> 0)\<rparr>)"

text \<open>\<open>addUnit(const Unit &)\<close> passes the id and the two positions on.\<close>

definition addUnitStruct :: "MultiUnitPathFinder \<Rightarrow> Unit \<Rightarrow> MultiUnitPathFinder" where
  "addUnitStruct pf unit = addUnit pf (unitId unit) (startPos unit) (targetPos unit)"

definition removeUnit :: "MultiUnitPathFinder \<Rightarrow> int \<Rightarrow> MultiUnitPathFinder" where
  "removeUnit pf uid =
     pf\<lparr>units := filter (\<lambda>unit. \<not> (unitId unit = uid)) (units pf),
        unitPriorities := (unitPriorities pf)(uid := None)\<rparr>"

definition clearUnits :: "MultiUnitPathFinder \<Rightarrow> MultiUnitPathFinder" where
  "clearUnits pf = clearOccupiedPositions (pf\<lparr>units := [], unitPriorities := Map.empty\<rparr>)"

definition setUnitPriority :: "MultiUnitPathFinder \<Rightarrow> int \<Rightarrow> int \<Rightarrow> MultiUnitPathFinder" where
  "setUnitPriority pf uid priority = pf\<lparr>unitPriorities := (unitPriorities pf)(uid \<mapsto> priority)\<rparr>"

subsection \<open>Loading a map with its units\<close>

text \<open>
  \<open>findAllStartAndTargetPositions\<close> scans the grid row by row for the tiles 0 and 8; the
  first of each becomes the map's default when none was set.
\<close>

definition scanTiles :: "BattleMap \<Rightarrow> int \<Rightarrow> Position list" where
  "scanTiles bm tileCode =
     concat (map (\<lambda>y. concat (map (\<lambda>x. if grid bm ! y ! x = tileCode then [Position (int x) (int y)] else [])
                                   [0 ..< nat (width bm)]))
                 [0 ..< nat (height bm)])"

definition findAllStartAndTargetPositions :: "BattleMap \<Rightarrow> BattleMap" where
  "findAllStartAndTargetPositions bm =
     (let starts = scanTiles bm 0; targets = scanTiles bm 8 in
      bm\<lparr>allStartPositions := starts,
         allTargetPositions := targets,
         mapStartPos := (if \<not> hasValidStart bm \<and> starts \<noteq> [] then hd starts else mapStartPos bm),
         hasValidStart := (hasValidStart bm \<or> starts \<noteq> []),
         mapTargetPos := (if \<not> hasValidTarget bm \<and> targets \<noteq> [] then hd targets else mapTargetPos bm),
         hasValidTarget := (hasValidTarget bm \<or> targets \<noteq> [])\<rparr>)"

definition loadMapFromGrid :: "MultiUnitPathFinder \<Rightarrow> int list list \<Rightarrow> bool \<times> MultiUnitPathFinder" where
  "loadMapFromGrid pf g =
     (if g = [] \<or> hd g = [] then (False, pf)
      else (let bm = findAllStartAndTargetPositions
                       ((battleMap pf)\<lparr>height := int (length g), width := int (length (hd g)), grid := g,
                                       hasValidStart := False, hasValidTarget := False\<rparr>);
                pf' = pf\<lparr>battleMap := bm\<rparr>
            in if allStartPositions bm = [] then (False, pf')
               else if allTargetPositions bm = [] then (False, pf')
               else (True, pf')))"

definition loadMapWithUnits ::
  "MultiUnitPathFinder \<Rightarrow> int list list \<Rightarrow> Unit list \<Rightarrow> bool \<times> MultiUnitPathFinder" where
  "loadMapWithUnits pf g mapUnits =
     (case loadMapFromGrid pf g of
        (False, pf') \<Rightarrow> (False, pf')
      | (True, pf') \<Rightarrow> (True, foldl addUnitStruct (clearUnits pf') mapUnits))"

subsection \<open>Units from the map's start and target tiles\<close>

definition getStartPosition :: "BattleMap \<Rightarrow> int \<Rightarrow> Position" where
  "getStartPosition bm i =
     (if i \<ge> 0 \<and> i < int (length (allStartPositions bm)) then allStartPositions bm ! nat i
      else Position (-1) (-1))"

definition getTargetPosition :: "BattleMap \<Rightarrow> int \<Rightarrow> Position" where
  "getTargetPosition bm i =
     (if i \<ge> 0 \<and> i < int (length (allTargetPositions bm)) then allTargetPositions bm ! nat i
      else Position (-1) (-1))"

text \<open>
  The body of the three loops of \<open>autoSetupUnitsFromMap\<close>, which differ in the index of
  the target only: unit \<open>i + 1\<close> from start \<open>i\<close> to the target, with the priority
  \<open>maxPossibleDistance - distance\<close>; nothing when a position is outside the map.
\<close>

definition setupUnit :: "MultiUnitPathFinder \<Rightarrow> int \<Rightarrow> int \<Rightarrow> MultiUnitPathFinder" where
  "setupUnit pf i targetIndex =
     (let bm = battleMap pf;
          start = getStartPosition bm i;
          target = getTargetPosition bm targetIndex
      in if \<not> isValidPosition bm (posX start) (posY start) \<or>
            \<not> isValidPosition bm (posX target) (posY target) then pf
         else (let pf1 = addUnit pf (i + 1) start target;
                   distance = abs (posX start - posX target) + abs (posY start - posY target);
                   maxPossibleDistance = width bm + height bm;
                   priority = maxPossibleDistance - distance
               in setUnitPriority pf1 (i + 1) priority))"

definition autoSetupUnitsFromMap :: "MultiUnitPathFinder \<Rightarrow> bool \<times> MultiUnitPathFinder" where
  "autoSetupUnitsFromMap pf =
     (if \<not> isMapLoaded (battleMap pf) then (False, pf)
      else (let pf0 = clearUnits pf;
                startCount = int (length (allStartPositions (battleMap pf0)));
                targetCount = int (length (allTargetPositions (battleMap pf0)))
            in if startCount = 0 \<or> targetCount = 0 then (False, pf0)
               else (let pf1 =
                           (if startCount = targetCount then
                              foldl (\<lambda>s i. setupUnit s (int i) (int i)) pf0 [0 ..< nat startCount]
                            else if startCount > targetCount then
                              foldl (\<lambda>s i. setupUnit s (int i) (int i mod targetCount)) pf0 [0 ..< nat startCount]
                            else
                              foldl (\<lambda>s i. setupUnit s (int i) (int i)) pf0 [0 ..< nat startCount])
                     in if units pf1 = [] then (False, pf1) else (True, pf1))))"

text \<open>The operations that change the stored units, as one type, and what each does.\<close>

datatype UnitOperation =
  AddUnit int Position Position
| AddUnitStruct Unit
| RemoveUnit int
| ClearUnits
| SetUnitPriority int int
| LoadMapWithUnits "int list list" "Unit list"
| AutoSetupUnitsFromMap

fun applyOperation :: "MultiUnitPathFinder \<Rightarrow> UnitOperation \<Rightarrow> MultiUnitPathFinder" where
  "applyOperation pf (AddUnit uid s t) = addUnit pf uid s t"
| "applyOperation pf (AddUnitStruct unit) = addUnitStruct pf unit"
| "applyOperation pf (RemoveUnit uid) = removeUnit pf uid"
| "applyOperation pf ClearUnits = clearUnits pf"
| "applyOperation pf (SetUnitPriority uid priority) = setUnitPriority pf uid priority"
| "applyOperation pf (LoadMapWithUnits g mapUnits) = snd (loadMapWithUnits pf g mapUnits)"
| "applyOperation pf AutoSetupUnitsFromMap = snd (autoSetupUnitsFromMap pf)"

text \<open>
  A path finder as its constructor leaves it: the empty map of \<open>BattleMap()\<close>, no units,
  no priorities, no occupancy, the sequential strategy, the move order as parsed (the
  default when it is refused).
\<close>

definition emptyBattleMap :: BattleMap where
  "emptyBattleMap =
     \<lparr>grid = [], width = 0, height = 0, mapStartPos = Position 0 0, mapTargetPos = Position 0 0,
      hasValidStart = False, hasValidTarget = False, allStartPositions = [], allTargetPositions = []\<rparr>"

definition newPathFinder :: "string \<Rightarrow> MultiUnitPathFinder" where
  "newPathFinder moveOrder =
     \<lparr>battleMap = emptyBattleMap, moveDirections = initialMoveDirections moveOrder, units = [],
      strategy = SEQUENTIAL, unitPriorities = Map.empty, occupiedPositionsAtTime = Map.empty\<rparr>"

section \<open>The sort of the GNU C++ library\<close>

































section \<open>Platforms to run the model on\<close>

text \<open>
  Two platforms. The first sorts by insertion from the front, which keeps equivalent
  units in their order; the second sorts as libstdc++ does. Both take the first of the
  equally good heap entries and reverse the units on a shuffle.
\<close>

fun insertByOrder :: "(Unit \<Rightarrow> Unit \<Rightarrow> bool) \<Rightarrow> Unit \<Rightarrow> Unit list \<Rightarrow> Unit list" where
  "insertByOrder cmp u [] = [u]"
| "insertByOrder cmp u (v # vs) = (if cmp u v then u # v # vs else v # insertByOrder cmp u vs)"

definition insertionSort :: "(Unit \<Rightarrow> Unit \<Rightarrow> bool) \<Rightarrow> Unit list \<Rightarrow> Unit list" where
  "insertionSort cmp us = foldl (\<lambda>sorted u. insertByOrder cmp u sorted) [] us"

definition stablePlatform :: Platform where
  "stablePlatform =
     \<lparr>heapTie = (\<lambda>cands. 0), heapTieNode = (\<lambda>cands. 0), stdSort = insertionSort,
      stdShuffle = (\<lambda>attempt us. rev us)\<rparr>"


text \<open>
  The contract of \<open>std::sort\<close> for the comparator of \<open>findPathsPriorityBased\<close>: a
  permutation in which no unit stands before one of higher priority.
\<close>

definition sortsByPriority :: "Platform \<Rightarrow> bool" where
  "sortsByPriority env =
     (\<forall>pf us. mset (stdSort env (byPriority pf) us) = mset us \<and>
              sorted_wrt (\<lambda>a b. \<not> byPriority pf b a) (stdSort env (byPriority pf) us))"

lemma mset_insertByOrder: "mset (insertByOrder cmp u vs) = add_mset u (mset vs)"
  by (induction vs) simp_all

lemma set_insertByOrder: "set (insertByOrder cmp u vs) = insert u (set vs)"
  by (induction vs) auto

lemma sorted_insertByOrder:
  "sorted_wrt (\<lambda>a b. \<not> byPriority pf b a) vs \<Longrightarrow>
   sorted_wrt (\<lambda>a b. \<not> byPriority pf b a) (insertByOrder (byPriority pf) u vs)"
  by (induction vs) (auto simp: set_insertByOrder byPriority_def)

lemma insertionSort_sorts:
  "mset (foldl (\<lambda>sorted u. insertByOrder (byPriority pf) u sorted) acc us) = mset acc + mset us \<and>
   (sorted_wrt (\<lambda>a b. \<not> byPriority pf b a) acc \<longrightarrow>
    sorted_wrt (\<lambda>a b. \<not> byPriority pf b a)
      (foldl (\<lambda>sorted u. insertByOrder (byPriority pf) u sorted) acc us))"
  by (induction us arbitrary: acc) (simp_all add: mset_insertByOrder sorted_insertByOrder)

lemma sortsByPriority_stablePlatform: "sortsByPriority stablePlatform"
  using insertionSort_sorts[of _ "[]"]
  by (simp add: sortsByPriority_def stablePlatform_def insertionSort_def)

section \<open>Collisions: what is reported\<close>

lemma collisionsAtStep_iff:
  "(t, k) \<in> set (collisionsAtStep ts ps) \<longleftrightarrow>
     t = ts \<and> (\<exists>i j. k = int i \<and> i < j \<and> j < length ps \<and> ps ! i = ps ! j)"
  unfolding collisionsAtStep_def
  apply (auto simp: Suc_le_eq split: if_splits)
  subgoal for i j
    by (drule equals0D[where a = j]) simp
  done

lemma collisionsAtStep_empty_iff: "collisionsAtStep ts ps = [] \<longleftrightarrow> distinct ps"
proof
  assume e: "collisionsAtStep ts ps = []"
  show "distinct ps"
  proof (rule ccontr)
    assume "\<not> distinct ps"
    then obtain i j where ij: "i < j" "j < length ps" "ps ! i = ps ! j"
      by (metis distinct_conv_nth linorder_neqE_nat)
    then have "(ts, int i) \<in> set (collisionsAtStep ts ps)"
      unfolding collisionsAtStep_iff by blast
    with e show False by simp
  qed
next
  assume d: "distinct ps"
  show "collisionsAtStep ts ps = []"
  proof (rule ccontr)
    assume "collisionsAtStep ts ps \<noteq> []"
    then obtain t k where "(t, k) \<in> set (collisionsAtStep ts ps)"
      by (metis list.set_intros(1) neq_Nil_conv surj_pair)
    then obtain i j where "i < j" "j < length ps" "ps ! i = ps ! j"
      unfolding collisionsAtStep_iff by blast
    with d show False
      by (metis distinct_conv_nth less_trans nat_neq_iff)
  qed
qed

lemma findCollisions_iff:
  "(t, k) \<in> set (findCollisions tbl) \<longleftrightarrow>
     (\<exists>s i j. t = int s \<and> s < length tbl \<and> k = int i \<and> i < j \<and> j < length (tbl ! s) \<and>
              tbl ! s ! i = tbl ! s ! j)"
  unfolding findCollisions_def set_concat set_map
  by (auto simp: collisionsAtStep_iff)

section \<open>Reservations\<close>

lemma isOccupiedAt_upd:
  "isOccupiedAt (occ(t \<mapsto> insert p (case occ t of None \<Rightarrow> {} | Some s \<Rightarrow> s))) t' q \<longleftrightarrow>
     (t' = t \<and> q = p) \<or> isOccupiedAt occ t' q"
  by (auto simp: isOccupiedAt_def split: option.splits)

lemma updateOccupiedPositions_keeps:
  "isOccupiedAt occ t q \<Longrightarrow> isOccupiedAt (updateOccupiedPositions bm occ ps t0) t q"
  by (induction ps arbitrary: occ t0) (simp_all add: isOccupiedAt_upd)

lemma updateOccupiedPositions_records:
  "i < length ps \<Longrightarrow> isValidPosition bm (posX (ps ! i)) (posY (ps ! i)) \<Longrightarrow>
   isOccupiedAt (updateOccupiedPositions bm occ ps t0) (t0 + int i) (ps ! i)"
proof (induction ps arbitrary: occ t0 i)
  case Nil
  then show ?case by simp
next
  case (Cons p ps)
  show ?case
  proof (cases i)
    case 0
    with Cons.prems show ?thesis
      by (simp add: updateOccupiedPositions_keeps isOccupiedAt_upd)
  next
    case (Suc k)
    with Cons.prems have "k < length ps" "isValidPosition bm (posX (ps ! k)) (posY (ps ! k))"
      by simp_all
    from Cons.IH[OF this, of _ "t0 + 1"] Suc show ?thesis
      by (simp add: add.assoc)
  qed
qed

lemma updateOccupiedPositions_only_valid:
  "\<not> isValidPosition bm (posX q) (posY q) \<Longrightarrow>
   isOccupiedAt (updateOccupiedPositions bm occ ps t0) t q = isOccupiedAt occ t q"
  by (induction ps arbitrary: occ t0) (auto simp: isOccupiedAt_upd)

text \<open>A corridor of three cells: start tile, ground, target tile.\<close>

definition corridorMap :: BattleMap where
  "corridorMap =
     \<lparr>grid = [[0, -1, 8]], width = 3, height = 1,
      mapStartPos = Position 0 0, mapTargetPos = Position 2 0,
      hasValidStart = True, hasValidTarget = True,
      allStartPositions = [Position 0 0], allTargetPositions = [Position 2 0]\<rparr>"

text \<open>
  C6 (as the code has it). After \<open>updateOccupiedPositions(path, t0)\<close>, for every index
  \<open>i\<close> of the path: a cell inside the map is recorded at time \<open>t0 + i\<close>; a cell outside
  the map is skipped, its record stays what it was; and in both cases
  \<open>canWaitAtPosition\<close> refuses the cell at that time.
\<close>

theorem updateOccupiedPositions_reserves_cells_of_the_map:
  assumes "i < length p"
  shows "(isValidPosition bm (posX (p ! i)) (posY (p ! i)) \<longrightarrow>
            isOccupiedAt (updateOccupiedPositions bm occ p t0) (t0 + int i) (p ! i)) \<and>
         (\<not> isValidPosition bm (posX (p ! i)) (posY (p ! i)) \<longrightarrow>
            isOccupiedAt (updateOccupiedPositions bm occ p t0) (t0 + int i) (p ! i)
              = isOccupiedAt occ (t0 + int i) (p ! i)) \<and>
         \<not> canWaitAtPosition bm (updateOccupiedPositions bm occ p t0) (p ! i) (t0 + int i)"
  using assms
  by (auto simp: updateOccupiedPositions_records updateOccupiedPositions_only_valid
        canWaitAtPosition_def)

theorem updateOccupiedPositions_reserves_cells_of_the_map_witness:
  "(1::nat) < length [Position 0 0, Position 1 0] \<and>
   isValidPosition corridorMap 1 0 \<and>
   isOccupiedAt (updateOccupiedPositions corridorMap Map.empty [Position 0 0, Position 1 0] 0) 1 (Position 1 0) \<and>
   \<not> canWaitAtPosition corridorMap
        (updateOccupiedPositions corridorMap Map.empty [Position 0 0, Position 1 0] 0) (Position 1 0) 1"
  using updateOccupiedPositions_reserves_cells_of_the_map
          [of 1 "[Position 0 0, Position 1 0]" corridorMap Map.empty 0]
  by (simp add: corridorMap_def isValidPosition_def)

text \<open>
  A path through the cell \<open>(5,5)\<close>, outside the 3 by 1 map: nothing is recorded for it,
  and the lookup of the reservations still finds the cell free.
\<close>

theorem updateOccupiedPositions_outside_counterexample:
  "\<not> isOccupiedAt (updateOccupiedPositions corridorMap Map.empty [Position 5 5] 0) 0 (Position 5 5) \<and>
   \<not> hasTemporalConflict (updateOccupiedPositions corridorMap Map.empty [Position 5 5] 0) [Position 5 5] 0"
  by (simp add: corridorMap_def isValidPosition_def isOccupiedAt_def)

section \<open>Collisions on shared goals\<close>

lemma no_collision_at_step_iff:
  assumes "s < length tbl"
  shows "(\<forall>k. (int s, k) \<notin> set (findCollisions tbl)) \<longleftrightarrow> distinct (tbl ! s)"
proof
  assume a: "\<forall>k. (int s, k) \<notin> set (findCollisions tbl)"
  show "distinct (tbl ! s)"
  proof (rule ccontr)
    assume "\<not> distinct (tbl ! s)"
    then obtain i j where "i < j" "j < length (tbl ! s)" "tbl ! s ! i = tbl ! s ! j"
      by (metis distinct_conv_nth linorder_neqE_nat)
    with assms have "(int s, int i) \<in> set (findCollisions tbl)"
      unfolding findCollisions_iff by blast
    with a show False by blast
  qed
next
  assume d: "distinct (tbl ! s)"
  show "\<forall>k. (int s, k) \<notin> set (findCollisions tbl)"
  proof (intro allI notI)
    fix k assume "(int s, k) \<in> set (findCollisions tbl)"
    then obtain i j where "i < j" "j < length (tbl ! s)" "tbl ! s ! i = tbl ! s ! j"
      unfolding findCollisions_iff by auto
    with d show False
      by (metis distinct_conv_nth less_trans nat_neq_iff)
  qed
qed

text \<open>
  A map of two rows with the target tile \<open>(1,0)\<close> and three units that all go there, and
  the units as the sequential strategy returns them: they reach the target one after the
  other.
\<close>

definition sharedGoalFinder :: MultiUnitPathFinder where
  "sharedGoalFinder =
     addUnit (addUnit (addUnit
       (snd (loadMapFromGrid (newPathFinder ''rdlu'') [[0, 8, 0], [-1, 0, -1]]))
       1 (Position 0 0) (Position 1 0)) 2 (Position 2 0) (Position 1 0)) 3 (Position 1 1) (Position 1 0)"

definition sharedGoalUnits :: "Unit list" where
  "sharedGoalUnits =
     [\<lparr>unitId = 1, startPos = Position 0 0, targetPos = Position 1 0,
       path = [Position 0 0, Position 1 0], pathFound = True\<rparr>,
      \<lparr>unitId = 2, startPos = Position 2 0, targetPos = Position 1 0,
       path = [Position 2 0, Position 2 0, Position 1 0], pathFound = True\<rparr>,
      \<lparr>unitId = 3, startPos = Position 1 1, targetPos = Position 1 0,
       path = [Position 1 1, Position 1 1, Position 1 1, Position 1 0], pathFound = True\<rparr>]"

lemma sharedGoalFinder_eval:
  "resUnits (fst (findPathsForAllUnits stablePlatform sharedGoalFinder)) = sharedGoalUnits \<and>
   stepByStepPositions (fst (findPathsForAllUnits stablePlatform sharedGoalFinder))
     = generateStepByStepPositions sharedGoalUnits"
  by code_simp

text \<open>
  C1 (as the code has it). \<open>findCollisions\<close> receives positions only and knows no goal:
  it reports an entry \<open>(t, i)\<close> exactly when, at step \<open>t\<close>, agent \<open>i\<close> shares its cell
  with an agent of a greater index, whether or not the cell is the agents' goal. So a
  step is free of entries exactly when its positions are pairwise distinct.
\<close>

theorem findCollisions_reports_every_shared_cell:
  "((t, k) \<in> set (findCollisions tbl) \<longleftrightarrow>
      (\<exists>s i j. t = int s \<and> s < length tbl \<and> k = int i \<and> i < j \<and> j < length (tbl ! s) \<and>
               tbl ! s ! i = tbl ! s ! j)) \<and>
   (s < length tbl \<longrightarrow> ((\<forall>k. (int s, k) \<notin> set (findCollisions tbl)) \<longleftrightarrow> distinct (tbl ! s)))"
  using findCollisions_iff[of t k tbl] no_collision_at_step_iff[of s tbl] by blast

theorem findCollisions_reports_every_shared_cell_witness:
  "(0::nat) < length [[Position 1 0, Position 1 0, Position 1 0]] \<and>
   (\<exists>k. (int 0, k) \<in> set (findCollisions [[Position 1 0, Position 1 0, Position 1 0]])) \<and>
   \<not> distinct ([[Position 1 0, Position 1 0, Position 1 0]] ! 0)"
  using findCollisions_reports_every_shared_cell
          [of 0 0 "[[Position 1 0, Position 1 0, Position 1 0]]" 0]
  by simp

text \<open>
  Three units with the same target, planned by the sequential strategy: at step 3 each
  stands on its own target cell, and \<open>findCollisions\<close> reports the three pairs of that
  step.
\<close>

theorem findCollisions_shared_goal_counterexample:
  "resUnits (fst (findPathsForAllUnits stablePlatform sharedGoalFinder)) = sharedGoalUnits \<and>
   stepByStepPositions (fst (findPathsForAllUnits stablePlatform sharedGoalFinder)) ! 3
     = map targetPos sharedGoalUnits \<and>
   filter (\<lambda>c. fst c = 3)
     (findCollisions (stepByStepPositions (fst (findPathsForAllUnits stablePlatform sharedGoalFinder))))
     = [(3, 0), (3, 0), (3, 1)]"
  using sharedGoalFinder_eval
  by (simp add: sharedGoalUnits_def generateStepByStepPositions_def maxPathLength_def
        extendPath_def transposePaths_def findCollisions_def collisionsAtStep_def upt_rec
        numeral_nat)

section \<open>Unit ids are unique\<close>

lemma updateExisting_None_iff:
  "updateExisting uid s t us = None \<longleftrightarrow> uid \<notin> unitId ` set us"
  by (induction us) auto

lemma updateExisting_Some:
  "updateExisting uid s t us = Some us' \<Longrightarrow>
   \<exists>k < length us. unitId (us ! k) = uid \<and> (\<forall>j < k. unitId (us ! j) \<noteq> uid) \<and>
     us' = us[k := (us ! k)\<lparr>startPos := s, targetPos := t, path := [], pathFound := False\<rparr>]"
proof (induction us arbitrary: us')
  case Nil
  then show ?case by simp
next
  case (Cons u us)
  show ?case
  proof (cases "unitId u = uid")
    case True
    with Cons.prems show ?thesis
      by (intro exI[of _ 0]) auto
  next
    case False
    with Cons.prems obtain r where r: "updateExisting uid s t us = Some r" "us' = u # r"
      by auto
    from Cons.IH[OF r(1)] obtain k where k: "k < length us" "unitId (us ! k) = uid"
        "\<forall>j < k. unitId (us ! j) \<noteq> uid"
        "r = us[k := (us ! k)\<lparr>startPos := s, targetPos := t, path := [], pathFound := False\<rparr>]"
      by blast
    show ?thesis
    proof (intro exI[of _ "Suc k"] conjI allI impI)
      fix j assume "j < Suc k"
      then show "unitId ((u # us) ! j) \<noteq> uid"
        using False k(3) by (cases j) auto
    qed (use k r in auto)
  qed
qed

lemma updateExisting_ids:
  "updateExisting uid s t us = Some us' \<Longrightarrow> map unitId us' = map unitId us"
  by (induction us arbitrary: us') (auto split: if_splits)

lemma addUnit_ids:
  "map unitId (units (addUnit pf uid s t)) =
     (if uid \<in> unitId ` set (units pf) then map unitId (units pf) else map unitId (units pf) @ [uid])"
proof (cases "updateExisting uid s t (units pf)")
  case None
  then show ?thesis
    using updateExisting_None_iff[of uid s t "units pf"] by (simp add: addUnit_def mkUnit_def)
next
  case (Some us')
  then show ?thesis
    using updateExisting_None_iff[of uid s t "units pf"] updateExisting_ids[OF Some]
    by (simp add: addUnit_def)
qed

lemma addUnit_distinct:
  "distinct (map unitId (units pf)) \<Longrightarrow> distinct (map unitId (units (addUnit pf uid s t)))"
  by (simp add: addUnit_ids)

lemma removeUnit_distinct:
  "distinct (map unitId (units pf)) \<Longrightarrow> distinct (map unitId (units (removeUnit pf uid)))"
  by (simp add: removeUnit_def distinct_map_filter)

lemma foldl_addUnitStruct_distinct:
  "distinct (map unitId (units pf)) \<Longrightarrow>
   distinct (map unitId (units (foldl addUnitStruct pf us)))"
  by (induction us arbitrary: pf) (simp_all add: addUnitStruct_def addUnit_distinct)

lemma units_clearUnits [simp]: "units (clearUnits pf) = []"
  by (simp add: clearUnits_def clearOccupiedPositions_def)

lemma units_setUnitPriority [simp]: "units (setUnitPriority pf uid priority) = units pf"
  by (simp add: setUnitPriority_def)

lemma setupUnit_distinct:
  "distinct (map unitId (units pf)) \<Longrightarrow> distinct (map unitId (units (setupUnit pf i k)))"
  by (simp add: setupUnit_def Let_def addUnit_distinct)

lemma foldl_setupUnit_distinct:
  "distinct (map unitId (units pf)) \<Longrightarrow>
   distinct (map unitId (units (foldl (\<lambda>s i. setupUnit s (f i) (g i)) pf is)))"
  by (induction "is" arbitrary: pf) (simp_all add: setupUnit_distinct)

lemma loadMapFromGrid_units: "units (snd (loadMapFromGrid pf g)) = units pf"
  by (simp add: loadMapFromGrid_def Let_def)

lemma loadMapWithUnits_distinct:
  "distinct (map unitId (units pf)) \<Longrightarrow>
   distinct (map unitId (units (snd (loadMapWithUnits pf g mapUnits))))"
proof -
  assume d: "distinct (map unitId (units pf))"
  obtain ok pf' where l: "loadMapFromGrid pf g = (ok, pf')" by (cases "loadMapFromGrid pf g")
  then have u: "units pf' = units pf" using loadMapFromGrid_units[of pf g] by simp
  show ?thesis
  proof (cases ok)
    case True
    then show ?thesis
      using l by (simp add: loadMapWithUnits_def foldl_addUnitStruct_distinct)
  next
    case False
    then show ?thesis using l u d by (simp add: loadMapWithUnits_def)
  qed
qed

lemma autoSetupUnitsFromMap_distinct:
  "distinct (map unitId (units pf)) \<Longrightarrow>
   distinct (map unitId (units (snd (autoSetupUnitsFromMap pf))))"
  by (simp add: autoSetupUnitsFromMap_def Let_def foldl_setupUnit_distinct)

lemma applyOperation_distinct:
  "distinct (map unitId (units pf)) \<Longrightarrow> distinct (map unitId (units (applyOperation pf operation)))"
  by (cases operation)
     (simp_all add: addUnit_distinct addUnitStruct_def removeUnit_distinct loadMapWithUnits_distinct
        autoSetupUnitsFromMap_distinct)

lemma foldl_applyOperation_distinct:
  "distinct (map unitId (units pf)) \<Longrightarrow>
   distinct (map unitId (units (foldl applyOperation pf ops)))"
  by (induction ops arbitrary: pf) (simp_all add: applyOperation_distinct)

text \<open>
  C9. The stored units never hold an id twice: every unit-management operation keeps the
  ids distinct, so they are distinct after any sequence of operations on a new path
  finder; and \<open>addUnit\<close> with an id that is already there changes nothing but the first
  unit with that id, whose positions it overwrites and whose path and found flag it
  resets, leaving the number of units as it was.
\<close>

theorem unit_ids_stay_unique:
  "(distinct (map unitId (units pf)) \<longrightarrow>
      distinct (map unitId (units (applyOperation pf operation)))) \<and>
   distinct (map unitId (units (foldl applyOperation (newPathFinder moveOrder) ops))) \<and>
   (uid \<in> unitId ` set (units pf) \<longrightarrow>
      length (units (addUnit pf uid s t)) = length (units pf) \<and>
      (\<exists>k < length (units pf).
          unitId (units pf ! k) = uid \<and> (\<forall>j < k. unitId (units pf ! j) \<noteq> uid) \<and>
          units (addUnit pf uid s t) =
            (units pf)[k := (units pf ! k)\<lparr>startPos := s, targetPos := t, path := [], pathFound := False\<rparr>]))"
proof (intro conjI impI)
  assume "distinct (map unitId (units pf))"
  then show "distinct (map unitId (units (applyOperation pf operation)))"
    by (rule applyOperation_distinct)
next
  show "distinct (map unitId (units (foldl applyOperation (newPathFinder moveOrder) ops)))"
    by (rule foldl_applyOperation_distinct) (simp add: newPathFinder_def)
next
  assume m: "uid \<in> unitId ` set (units pf)"
  then obtain us' where some: "updateExisting uid s t (units pf) = Some us'"
    using updateExisting_None_iff[of uid s t "units pf"] by (cases "updateExisting uid s t (units pf)") auto
  then have a: "units (addUnit pf uid s t) = us'" by (simp add: addUnit_def)
  from updateExisting_Some[OF some] obtain k where k: "k < length (units pf)"
      "unitId (units pf ! k) = uid" "\<forall>j < k. unitId (units pf ! j) \<noteq> uid"
      "us' = (units pf)[k := (units pf ! k)\<lparr>startPos := s, targetPos := t, path := [], pathFound := False\<rparr>]"
    by blast
  show "length (units (addUnit pf uid s t)) = length (units pf)"
    using a k(4) by simp
  show "\<exists>k < length (units pf).
          unitId (units pf ! k) = uid \<and> (\<forall>j < k. unitId (units pf ! j) \<noteq> uid) \<and>
          units (addUnit pf uid s t) =
            (units pf)[k := (units pf ! k)\<lparr>startPos := s, targetPos := t, path := [], pathFound := False\<rparr>]"
    using a k by blast
qed

text \<open>A path finder with the units 1 and 2 added.\<close>

definition twoUnitFinder :: MultiUnitPathFinder where
  "twoUnitFinder =
     addUnit (addUnit (newPathFinder ''rdlu'') 1 (Position 0 0) (Position 2 0)) 2 (Position 2 0) (Position 0 0)"

theorem unit_ids_stay_unique_witness:
  "distinct (map unitId (units twoUnitFinder)) \<and>
   2 \<in> unitId ` set (units twoUnitFinder) \<and>
   map unitId (units (applyOperation twoUnitFinder (AddUnit 2 (Position 1 0) (Position 1 0)))) = [1, 2] \<and>
   units (addUnit twoUnitFinder 2 (Position 1 0) (Position 1 0)) =
     [mkUnit 1 (Position 0 0) (Position 2 0), mkUnit 2 (Position 1 0) (Position 1 0)] \<and>
   distinct (map unitId (units (applyOperation twoUnitFinder (AddUnit 2 (Position 1 0) (Position 1 0)))))"
  using unit_ids_stay_unique
          [of twoUnitFinder "AddUnit 2 (Position 1 0) (Position 1 0)" "''rdlu''" "[]" 2
              "Position 1 0" "Position 1 0"]
  by (simp add: twoUnitFinder_def newPathFinder_def addUnit_def mkUnit_def)

section \<open>Successors of the temporal search\<close>

text \<open>
  The move directions of a path finder are always the four unit steps in some order: the
  constructor and \<open>setMoveOrder\<close> accept nothing else.
\<close>

definition validMoveDirections :: "(int \<times> int) list \<Rightarrow> bool" where
  "validMoveDirections dirs = (set dirs \<subseteq> set defaultMoveDirections)"

lemma directionOf_default: "directionOf c = Some d \<Longrightarrow> d \<in> set defaultMoveDirections"
  by (auto simp: directionOf_def defaultMoveDirections_def split: if_splits)

lemma initialMoveDirections_valid: "validMoveDirections (initialMoveDirections moveOrder)"
proof (cases "isValidMoveOrder moveOrder")
  case True
  then have "\<forall>c \<in> set moveOrder. directionOf c \<noteq> None"
    by (simp add: isValidMoveOrder_def list_all_iff)
  then have "\<forall>c \<in> set moveOrder. the (directionOf c) \<in> set defaultMoveDirections"
    using directionOf_default by fastforce
  with True show ?thesis
    by (auto simp: initialMoveDirections_def parseMoveOrder_def validMoveDirections_def)
next
  case False
  then show ?thesis
    by (simp add: initialMoveDirections_def parseMoveOrder_def validMoveDirections_def)
qed

text \<open>Every node that \<open>openSetNodes\<close> holds is stored under its own key.\<close>

definition keysConsistent :: "SearchState \<Rightarrow> bool" where
  "keysConsistent st =
     (\<forall>k n. openSetNodes st k = Some n \<longrightarrow> k = positionTimeKey (pos n) (time n))"

lemma getNeighborsWithOccupiedCheck_sound:
  assumes "validMoveDirections dirs"
    and "c \<in> set (getNeighborsWithOccupiedCheck bm dirs p t occ)"
  shows "abs (posX c - posX p) + abs (posY c - posY p) = 1 \<and>
         isValidPosition bm (posX c) (posY c) \<and> isReachable bm (posX c) (posY c) \<and>
         \<not> isOccupiedAt occ (t + 1) c"
proof -
  from assms(2) obtain dir where d: "dir \<in> set dirs"
      and c: "c = Position (posX p + fst dir) (posY p + snd dir)"
      and v: "isValidPosition bm (posX p + fst dir) (posY p + snd dir)"
             "isReachable bm (posX p + fst dir) (posY p + snd dir)"
             "\<not> isOccupiedAt occ (t + 1) (Position (posX p + fst dir) (posY p + snd dir))"
    by (auto simp: getNeighborsWithOccupiedCheck_def Let_def split: if_splits)
  from d assms(1) have "dir \<in> set defaultMoveDirections"
    by (auto simp: validMoveDirections_def)
  then have "abs (fst dir) + abs (snd dir) = 1"
    by (auto simp: defaultMoveDirections_def)
  with c v show ?thesis by simp
qed

lemma successorPositions_sound:
  assumes "validMoveDirections dirs"
    and "c \<in> set (successorPositions bm dirs occ current)"
  shows "isValidPosition bm (posX c) (posY c) \<and> isReachable bm (posX c) (posY c) \<and>
         \<not> isOccupiedAt occ (time current + 1) c \<and>
         (abs (posX c - posX (pos current)) + abs (posY c - posY (pos current)) = 1 \<or>
          c = pos current)"
proof (cases "c \<in> set (getNeighborsWithOccupiedCheck bm dirs (pos current) (time current) occ)")
  case True
  from getNeighborsWithOccupiedCheck_sound[OF assms(1) True] show ?thesis by simp
next
  case False
  with assms(2) have "c = pos current" "canWaitAtPosition bm occ (pos current) (time current + 1)"
    by (auto simp: successorPositions_def split: if_splits)
  then show ?thesis
    by (auto simp: canWaitAtPosition_def split: if_splits)
qed

text \<open>
  What \<open>considerSuccessor\<close> leaves in the queue: the nodes that were there, and nodes
  at the considered position, one step later and one dearer than the current node.
\<close>

definition successorNode :: "PathNode \<Rightarrow> Position \<Rightarrow> PathNode \<Rightarrow> bool" where
  "successorNode current c n =
     (pos n = c \<and> time n = time current + 1 \<and> gCost n = gCost current + 1 \<and>
      fCost n = gCost n + hCost n \<and> parent n = Some current)"

lemma considerSuccessor_nodes:
  assumes "keysConsistent st" and "n \<in> set (openSet (considerSuccessor target current st c))"
  shows "n \<in> set (openSet st) \<or> successorNode current c n"
proof (cases "positionTimeKey c (time current + 1) \<in> closedSet st")
  case True
  with assms(2) show ?thesis by (simp add: considerSuccessor_def)
next
  case nc: False
  show ?thesis
  proof (cases "openSetNodes st (positionTimeKey c (time current + 1))")
    case None
    with nc assms(2) show ?thesis
      by (auto simp: considerSuccessor_def Let_def mkPathNode_def successorNode_def)
  next
    case (Some e)
    with assms(1) have e: "pos e = c" "time e = time current + 1"
      by (auto simp: keysConsistent_def positionTimeKey_def)
    with nc Some assms(2) show ?thesis
      by (auto simp: considerSuccessor_def Let_def successorNode_def split: if_splits)
  qed
qed

lemma considerSuccessor_keysConsistent:
  "keysConsistent st \<Longrightarrow> keysConsistent (considerSuccessor target current st c)"
  unfolding keysConsistent_def considerSuccessor_def Let_def
  by (auto simp: mkPathNode_def positionTimeKey_def split: option.splits if_splits)

lemma foldl_considerSuccessor_nodes:
  assumes "keysConsistent st"
    and "n \<in> set (openSet (foldl (considerSuccessor target current) st cs))"
  shows "n \<in> set (openSet st) \<or> (\<exists>c \<in> set cs. successorNode current c n)"
  using assms
proof (induction cs arbitrary: st)
  case Nil
  then show ?case by simp
next
  case (Cons c cs)
  let ?s = "considerSuccessor target current st c"
  have k: "keysConsistent ?s" using Cons.prems(1) by (rule considerSuccessor_keysConsistent)
  from Cons.prems(2) have "n \<in> set (openSet (foldl (considerSuccessor target current) ?s cs))"
    by simp
  from Cons.IH[OF k this] considerSuccessor_nodes[OF Cons.prems(1), of n target current c]
  show ?case by auto
qed

text \<open>
  The search keeps the keys consistent: its first state has them so, and popping and
  expanding a node preserve it.
\<close>

lemma keysConsistent_start:
  "keysConsistent \<lparr>openSet = [mkPathNode start 0 0 h None], closedSet = {},
                   openSetNodes = [positionTimeKey start 0 \<mapsto> mkPathNode start 0 0 h None],
                   iterations = 0\<rparr>"
  by (simp add: keysConsistent_def mkPathNode_def)

lemma keysConsistent_pop:
  "keysConsistent st \<Longrightarrow>
   keysConsistent (st\<lparr>openSet := q, openSetNodes := (openSetNodes st)(k := None), iterations := i,
                      closedSet := c\<rparr>)"
  by (simp add: keysConsistent_def)

lemma expandNode_keysConsistent:
  "keysConsistent st \<Longrightarrow> keysConsistent (expandNode bm dirs occ target current st)"
proof -
  have "keysConsistent st \<Longrightarrow> keysConsistent (foldl (considerSuccessor target current) st cs)" for cs
    by (induction cs arbitrary: st) (simp_all add: considerSuccessor_keysConsistent)
  then show "keysConsistent st \<Longrightarrow> keysConsistent (expandNode bm dirs occ target current st)"
    by (simp add: expandNode_def)
qed

text \<open>
  C4. Every node that expanding a state \<open>(c, t)\<close> brings into the open set is a successor
  at time \<open>t + 1\<close> with cost \<open>g + 1\<close> and the expanded node as parent; its cell is inside
  the map, traversable and free of reservations at time \<open>t + 1\<close>; and the cell is either
  one orthogonal step away from \<open>c\<close> (a move) or \<open>c\<close> itself (a wait).
\<close>

theorem expandNode_generates_moves_and_waits:
  assumes "validMoveDirections dirs" and "keysConsistent st"
    and "n \<in> set (openSet (expandNode bm dirs occ target current st))"
    and "n \<notin> set (openSet st)"
  shows "time n = time current + 1 \<and> gCost n = gCost current + 1 \<and> parent n = Some current \<and>
         isValidPosition bm (posX (pos n)) (posY (pos n)) \<and>
         isReachable bm (posX (pos n)) (posY (pos n)) \<and>
         \<not> isOccupiedAt occ (time current + 1) (pos n) \<and>
         (abs (posX (pos n) - posX (pos current)) + abs (posY (pos n) - posY (pos current)) = 1 \<or>
          pos n = pos current)"
proof -
  from foldl_considerSuccessor_nodes[OF assms(2)] assms(3,4)
  obtain c where c: "c \<in> set (successorPositions bm dirs occ current)" "successorNode current c n"
    unfolding expandNode_def by blast
  from successorPositions_sound[OF assms(1) c(1)] c(2) show ?thesis
    by (simp add: successorNode_def)
qed

text \<open>The search state on the corridor after the start node \<open>(0,0)\<close> at time 0 was popped.\<close>

definition afterStartPopped :: SearchState where
  "afterStartPopped =
     \<lparr>openSet = [], closedSet = {positionTimeKey (Position 0 0) 0}, openSetNodes = Map.empty,
      iterations = 1\<rparr>"

theorem expandNode_generates_moves_and_waits_witness:
  "validMoveDirections defaultMoveDirections \<and> keysConsistent afterStartPopped \<and>
   openSet (expandNode corridorMap defaultMoveDirections Map.empty (Position 2 0)
              (mkPathNode (Position 0 0) 0 0 2 None) afterStartPopped)
     = [PathNode (Position 1 0) 1 1 1 2 (Some (mkPathNode (Position 0 0) 0 0 2 None)),
        PathNode (Position 0 0) 1 1 2 3 (Some (mkPathNode (Position 0 0) 0 0 2 None))] \<and>
   time (PathNode (Position 1 0) 1 1 1 2 (Some (mkPathNode (Position 0 0) 0 0 2 None)))
     = time (mkPathNode (Position 0 0) 0 0 2 None) + 1 \<and>
   isReachable corridorMap 1 0"
  using expandNode_generates_moves_and_waits
          [of defaultMoveDirections afterStartPopped
              "PathNode (Position 1 0) 1 1 1 2 (Some (mkPathNode (Position 0 0) 0 0 2 None))"
              corridorMap Map.empty "Position 2 0" "mkPathNode (Position 0 0) 0 0 2 None"]
  by (simp add: validMoveDirections_def keysConsistent_def afterStartPopped_def expandNode_def
        successorPositions_def getNeighborsWithOccupiedCheck_def canWaitAtPosition_def
        isValidPosition_def isReachable_def isOccupiedAt_def corridorMap_def
        defaultMoveDirections_def considerSuccessor_def positionTimeKey_def mkPathNode_def
        calculateHeuristic_def Let_def)

section \<open>Termination of the temporal search\<close>

lemma nodeChain_nonempty: "nodeChain n \<noteq> []"
  by (cases n) simp

lemma last_reconstructPathFromNode: "last (reconstructPathFromNode n) = pos n"
  by (cases n) (simp add: reconstructPathFromNode_def)

lemma reconstructPathFromNode_nonempty: "reconstructPathFromNode n \<noteq> []"
  by (simp add: reconstructPathFromNode_def nodeChain_nonempty)

lemma astarLoop_exit:
  "openSet st = [] \<or> iterations st \<ge> maxIterations \<Longrightarrow>
   astarLoop env bm dirs occ target maxIterations st = ([], iterations st)"
  by (subst astarLoop.simps) auto

lemma astarLoop_result:
  "snd (astarLoop env bm dirs occ target maxIterations st) \<le> max (iterations st) maxIterations \<and>
   (fst (astarLoop env bm dirs occ target maxIterations st) = [] \<or>
    last (fst (astarLoop env bm dirs occ target maxIterations st)) = target)"
proof (induction env bm dirs occ target maxIterations st rule: astarLoop.induct)
  case (1 env bm dirs occ target maxIterations st)
  show ?case
  proof (cases "openSet st \<noteq> [] \<and> iterations st < maxIterations")
    case False
    then show ?thesis by (subst (1 2 3) astarLoop.simps) auto
  next
    case True
    define current where "current = pqTop PathNodeComparator (heapTie env) (openSet st)"
    define currentKey where "currentKey = positionTimeKey (pos current) (time current)"
    define st1 where "st1 = st\<lparr>openSet := remove1 current (openSet st),
                      openSetNodes := (openSetNodes st)(currentKey := None),
                      iterations := iterations st + 1\<rparr>"
    show ?thesis
    proof (cases "pos current = target")
      case t: True
      have "astarLoop env bm dirs occ target maxIterations st
              = (reconstructPathFromNode current, iterations st + 1)"
        using True t
        by (subst astarLoop.simps) (simp add: Let_def current_def currentKey_def st1_def)
      then show ?thesis using True t
        by (simp add: last_reconstructPathFromNode)
    next
      case f: False
      let ?next = "expandNode bm dirs occ target current (st1\<lparr>closedSet := insert currentKey (closedSet st1)\<rparr>)"
      have eq: "astarLoop env bm dirs occ target maxIterations st
              = astarLoop env bm dirs occ target maxIterations ?next"
        using True f
        by (subst astarLoop.simps) (simp add: Let_def current_def currentKey_def st1_def)
      have it: "iterations ?next = iterations st + 1" by (simp add: st1_def)
      from "1.IH"[OF True current_def currentKey_def st1_def f]
      show ?thesis unfolding eq using it True by auto
    qed
  qed
qed

text \<open>
  C5. The temporal search always returns: its loop counter never passes
  \<open>width * height * 100\<close>; what it returns is the empty path or a path that ends in the
  target; the loop returns the empty path as soon as the frontier is empty or the counter
  has reached the cap; and the sequential loop marks a unit whose search returned the
  empty path as not found and leaves the occupancy as it was.
\<close>

theorem astarSearch_stops_within_the_cap:
  "snd (astarSearch env bm dirs occ start target) \<le> max 0 (width bm * height bm * 100) \<and>
   (fst (astarSearch env bm dirs occ start target) = [] \<or>
    last (fst (astarSearch env bm dirs occ start target)) = target) \<and>
   (openSet st = [] \<or> iterations st \<ge> maxIterations \<longrightarrow>
      astarLoop env bm dirs occ target maxIterations st = ([], iterations st)) \<and>
   (sequentialBranch (battleMap pf) unit = RunSearch \<and>
    findPathAStarWithOccupiedCheck env pf (startPos unit) (targetPos unit) = [] \<longrightarrow>
      processUnit env pf unit = (unit\<lparr>pathFound := False\<rparr>, pf))"
proof (intro conjI impI)
  let ?init = "\<lparr>openSet = [mkPathNode start 0 0 (calculateHeuristic start target) None],
                closedSet = {},
                openSetNodes = [positionTimeKey start 0 \<mapsto> mkPathNode start 0 0 (calculateHeuristic start target) None],
                iterations = 0\<rparr>"
  from astarLoop_result[of env bm dirs occ target "width bm * height bm * 100" ?init]
  show "snd (astarSearch env bm dirs occ start target) \<le> max 0 (width bm * height bm * 100)"
    and "fst (astarSearch env bm dirs occ start target) = [] \<or>
         last (fst (astarSearch env bm dirs occ start target)) = target"
    by (auto simp: astarSearch_def Let_def)
next
  assume "openSet st = [] \<or> iterations st \<ge> maxIterations"
  then show "astarLoop env bm dirs occ target maxIterations st = ([], iterations st)"
    by (rule astarLoop_exit)
next
  assume "sequentialBranch (battleMap pf) unit = RunSearch \<and>
    findPathAStarWithOccupiedCheck env pf (startPos unit) (targetPos unit) = []"
  then show "processUnit env pf unit = (unit\<lparr>pathFound := False\<rparr>, pf)"
    by (simp add: processUnit_def Let_def)
qed

text \<open>Reservations that block both the step and the wait of a unit at \<open>(0,0)\<close> at time 1.\<close>

definition blockedAtOne :: "int \<rightharpoonup> Position set" where
  "blockedAtOne = [1 \<mapsto> {Position 0 0, Position 1 0}]"

lemma astarSearch_blocked_eval:
  "astarSearch stablePlatform corridorMap defaultMoveDirections blockedAtOne (Position 0 0) (Position 2 0)
     = ([], 1)"
  by code_simp

lemma astarSearch_free_eval:
  "astarSearch stablePlatform corridorMap defaultMoveDirections Map.empty (Position 0 0) (Position 2 0)
     = ([Position 0 0, Position 1 0, Position 2 0], 3)"
  by code_simp

theorem astarSearch_stops_within_the_cap_witness:
  "astarSearch stablePlatform corridorMap defaultMoveDirections blockedAtOne (Position 0 0) (Position 2 0)
     = ([], 1) \<and>
   (1::int) \<le> max 0 (width corridorMap * height corridorMap * 100) \<and>
   astarSearch stablePlatform corridorMap defaultMoveDirections Map.empty (Position 0 0) (Position 2 0)
     = ([Position 0 0, Position 1 0, Position 2 0], 3) \<and>
   last (fst (astarSearch stablePlatform corridorMap defaultMoveDirections Map.empty (Position 0 0)
                (Position 2 0))) = Position 2 0"
  using astarSearch_stops_within_the_cap
          [of stablePlatform corridorMap defaultMoveDirections blockedAtOne "Position 0 0" "Position 2 0"]
        astarSearch_blocked_eval astarSearch_free_eval
  by simp

section \<open>The priority-based strategy\<close>

lemma processUnit_frame:
  "unitId (fst (processUnit env pf u)) = unitId u \<and>
   startPos (fst (processUnit env pf u)) = startPos u \<and>
   targetPos (fst (processUnit env pf u)) = targetPos u \<and>
   units (snd (processUnit env pf u)) = units pf \<and>
   battleMap (snd (processUnit env pf u)) = battleMap pf \<and>
   moveDirections (snd (processUnit env pf u)) = moveDirections pf \<and>
   unitPriorities (snd (processUnit env pf u)) = unitPriorities pf \<and>
   strategy (snd (processUnit env pf u)) = strategy pf"
  by (simp add: processUnit_def Let_def split: SequentialBranch.splits)

lemma sequentialLoop_frame:
  "map unitId (fst (sequentialLoop env pf us)) = map unitId us \<and>
   length (fst (sequentialLoop env pf us)) = length us \<and>
   units (snd (sequentialLoop env pf us)) = units pf \<and>
   battleMap (snd (sequentialLoop env pf us)) = battleMap pf \<and>
   moveDirections (snd (sequentialLoop env pf us)) = moveDirections pf \<and>
   unitPriorities (snd (sequentialLoop env pf us)) = unitPriorities pf \<and>
   strategy (snd (sequentialLoop env pf us)) = strategy pf"
proof (induction us arbitrary: pf)
  case Nil
  then show ?case by simp
next
  case (Cons u us)
  obtain u' pf' where p: "processUnit env pf u = (u', pf')" by (cases "processUnit env pf u")
  obtain r pf'' where l: "sequentialLoop env pf' us = (r, pf'')" by (cases "sequentialLoop env pf' us")
  from processUnit_frame[of env pf u] p Cons.IH[of pf'] l show ?case by simp
qed

lemma findPathsSequential_frame:
  "map unitId (resUnits (fst (findPathsSequential env pf))) = map unitId (units pf) \<and>
   units (snd (findPathsSequential env pf)) = units pf"
proof -
  obtain r pf' where l: "sequentialLoop env (clearOccupiedPositions pf) (units pf) = (r, pf')"
    by (cases "sequentialLoop env (clearOccupiedPositions pf) (units pf)")
  from sequentialLoop_frame[of env "clearOccupiedPositions pf" "units pf"] l show ?thesis
    by (simp add: findPathsSequential_def clearOccupiedPositions_def)
qed

lemma findPathsSequential_cleared:
  "findPathsSequential env (clearOccupiedPositions pf\<lparr>units := us\<rparr>)
     = findPathsSequential env (pf\<lparr>units := us\<rparr>)"
  by (simp add: findPathsSequential_def clearOccupiedPositions_def)

lemma byPriority_cleared: "byPriority (clearOccupiedPositions pf) = byPriority pf"
  by (simp add: byPriority_def getUnitPriority_def clearOccupiedPositions_def fun_eq_iff)

lemma findPathsPriorityBased_eq:
  "findPathsPriorityBased env pf =
     (fst (findPathsSequential env (pf\<lparr>units := stdSort env (byPriority pf) (units pf)\<rparr>)),
      snd (findPathsSequential env (pf\<lparr>units := stdSort env (byPriority pf) (units pf)\<rparr>))\<lparr>units := units pf\<rparr>)"
proof -
  have u: "units (clearOccupiedPositions pf) = units pf" by (simp add: clearOccupiedPositions_def)
  show ?thesis
    unfolding findPathsPriorityBased_def Let_def byPriority_cleared u findPathsSequential_cleared
    by (simp add: case_prod_beta)
qed

text \<open>
  The corridor with unit 1 going from the left end to the right end and unit 2 the other
  way; both have the default priority 0.
\<close>

definition corridorFinder :: MultiUnitPathFinder where
  "corridorFinder = twoUnitFinder\<lparr>battleMap := corridorMap\<rparr>"

lemma corridorMap_loaded:
  "fst (loadMapFromGrid twoUnitFinder [[0, -1, 8]]) \<and>
   battleMap (snd (loadMapFromGrid twoUnitFinder [[0, -1, 8]])) = corridorMap"
  by code_simp

text \<open>The same with priority 5 for unit 2.\<close>

definition corridorFinderUnit2First :: MultiUnitPathFinder where
  "corridorFinderUnit2First = setUnitPriority corridorFinder 2 5"

lemma priorityBased_stable_eval:
  "resUnits (fst (findPathsPriorityBased stablePlatform corridorFinderUnit2First)) =
     [\<lparr>unitId = 2, startPos = Position 2 0, targetPos = Position 0 0,
       path = [Position 2 0, Position 1 0, Position 0 0], pathFound = True\<rparr>,
      \<lparr>unitId = 1, startPos = Position 0 0, targetPos = Position 2 0,
       path = [Position 0 0, Position 0 0, Position 1 0, Position 2 0], pathFound = True\<rparr>]"
  by code_simp

lemma priorityBased_units_eval:
  "map unitId (units (snd (findPathsPriorityBased stablePlatform corridorFinderUnit2First))) = [1, 2] \<and>
   map unitId (units corridorFinderUnit2First) = [1, 2]"
  by code_simp


























text \<open>
  C10. After \<open>findPathsPriorityBased\<close> the stored units are the ones stored before, in
  the same order, while the units of the returned result stand in the order the sort
  gave them: the same ids, priorities never increasing.
\<close>

theorem priorityBased_restores_the_stored_units:
  assumes "sortsByPriority env"
  shows "units (snd (findPathsPriorityBased env pf)) = units pf \<and>
         map unitId (resUnits (fst (findPathsPriorityBased env pf)))
           = map unitId (stdSort env (byPriority pf) (units pf)) \<and>
         mset (map unitId (resUnits (fst (findPathsPriorityBased env pf))))
           = mset (map unitId (units pf)) \<and>
         sorted_wrt (\<lambda>a b. getUnitPriority pf (unitId a) \<ge> getUnitPriority pf (unitId b))
           (resUnits (fst (findPathsPriorityBased env pf)))"
proof -
  let ?sorted = "stdSort env (byPriority pf) (units pf)"
  let ?res = "resUnits (fst (findPathsPriorityBased env pf))"
  from assms have m: "mset ?sorted = mset (units pf)"
    and s: "sorted_wrt (\<lambda>a b. \<not> byPriority pf b a) ?sorted"
    by (simp_all add: sortsByPriority_def)
  have ids: "map unitId ?res = map unitId ?sorted"
    using findPathsSequential_frame[of env "pf\<lparr>units := ?sorted\<rparr>"]
    by (simp add: findPathsPriorityBased_eq)
  have "sorted_wrt (\<lambda>i j. getUnitPriority pf i \<ge> getUnitPriority pf j) (map unitId ?sorted)"
    using s by (simp add: sorted_wrt_map byPriority_def not_less)
  then have "sorted_wrt (\<lambda>i j. getUnitPriority pf i \<ge> getUnitPriority pf j) (map unitId ?res)"
    by (simp add: ids)
  then have srt: "sorted_wrt (\<lambda>a b. getUnitPriority pf (unitId a) \<ge> getUnitPriority pf (unitId b)) ?res"
    by (simp add: sorted_wrt_map)
  have "mset (map unitId ?res) = image_mset unitId (mset ?sorted)"
    by (simp add: ids)
  then have ms: "mset (map unitId ?res) = mset (map unitId (units pf))"
    by (simp add: m)
  have "units (snd (findPathsPriorityBased env pf)) = units pf"
    by (simp add: findPathsPriorityBased_eq)
  with ids ms srt show ?thesis by simp
qed

theorem priorityBased_restores_the_stored_units_witness:
  "sortsByPriority stablePlatform \<and>
   map unitId (units corridorFinderUnit2First) = [1, 2] \<and>
   map unitId (units (snd (findPathsPriorityBased stablePlatform corridorFinderUnit2First))) = [1, 2] \<and>
   units (snd (findPathsPriorityBased stablePlatform corridorFinderUnit2First))
     = units corridorFinderUnit2First \<and>
   map unitId (resUnits (fst (findPathsPriorityBased stablePlatform corridorFinderUnit2First))) = [2, 1]"
  using priorityBased_restores_the_stored_units
          [OF sortsByPriority_stablePlatform, of corridorFinderUnit2First]
        sortsByPriority_stablePlatform priorityBased_stable_eval priorityBased_units_eval
  by simp

section \<open>A unit that starts on its target\<close>

lemma processUnit_keeps_occupied:
  "isOccupiedAt (occupiedPositionsAtTime pf) t q \<Longrightarrow>
   isOccupiedAt (occupiedPositionsAtTime (snd (processUnit env pf u))) t q"
  by (simp add: processUnit_def Let_def updateOccupiedPositions_keeps isOccupiedAt_upd
        split: SequentialBranch.splits)

lemma sequentialLoop_keeps_occupied:
  "isOccupiedAt (occupiedPositionsAtTime pf) t q \<Longrightarrow>
   isOccupiedAt (occupiedPositionsAtTime (snd (sequentialLoop env pf us))) t q"
proof (induction us arbitrary: pf)
  case Nil
  then show ?case by simp
next
  case (Cons u us)
  obtain u' pf' where p: "processUnit env pf u = (u', pf')" by (cases "processUnit env pf u")
  obtain r pf'' where l: "sequentialLoop env pf' us = (r, pf'')" by (cases "sequentialLoop env pf' us")
  from processUnit_keeps_occupied[OF Cons.prems, of env u] p
  have "isOccupiedAt (occupiedPositionsAtTime pf') t q" by simp
  from Cons.IH[OF this] p l show ?case by simp
qed

lemma sequentialLoop_nth:
  "k < length us \<Longrightarrow>
   \<exists>pfk. battleMap pfk = battleMap pf \<and>
         fst (sequentialLoop env pf us) ! k = fst (processUnit env pfk (us ! k)) \<and>
         (\<forall>t q. isOccupiedAt (occupiedPositionsAtTime (snd (processUnit env pfk (us ! k)))) t q \<longrightarrow>
                isOccupiedAt (occupiedPositionsAtTime (snd (sequentialLoop env pf us))) t q)"
proof (induction us arbitrary: pf k)
  case Nil
  then show ?case by simp
next
  case (Cons u us)
  obtain u' pf' where p: "processUnit env pf u = (u', pf')" by (cases "processUnit env pf u")
  obtain r pf'' where l: "sequentialLoop env pf' us = (r, pf'')" by (cases "sequentialLoop env pf' us")
  have bm: "battleMap pf' = battleMap pf" using processUnit_frame[of env pf u] p by simp
  show ?case
  proof (cases k)
    case 0
    have "\<forall>t q. isOccupiedAt (occupiedPositionsAtTime (snd (processUnit env pf u))) t q \<longrightarrow>
                isOccupiedAt (occupiedPositionsAtTime (snd (sequentialLoop env pf (u # us)))) t q"
      using sequentialLoop_keeps_occupied[of pf' _ _ env us] p l by simp
    with 0 p l show ?thesis
      by (intro exI[of _ pf]) simp
  next
    case (Suc j)
    with Cons.prems have "j < length us" by simp
    from Cons.IH[OF this, of pf'] obtain pfk where
      "battleMap pfk = battleMap pf'"
      "fst (sequentialLoop env pf' us) ! j = fst (processUnit env pfk (us ! j))"
      "\<forall>t q. isOccupiedAt (occupiedPositionsAtTime (snd (processUnit env pfk (us ! j)))) t q \<longrightarrow>
             isOccupiedAt (occupiedPositionsAtTime (snd (sequentialLoop env pf' us))) t q"
      by blast
    with Suc p l bm show ?thesis
      by (intro exI[of _ pfk]) simp
  qed
qed

text \<open>
  C8. A unit whose start cell is its target cell, inside the map and traversable, takes
  the branch of the sequential loop that ends before the search is called: the unit is
  marked found with the path of that one cell, and the cell is reserved at time 0, in
  the unit's own turn and in the result of the whole loop, whatever the other units are.
\<close>

theorem sequential_start_equals_goal:
  assumes "isValidPosition (battleMap pf) (posX (startPos u)) (posY (startPos u))"
    and "isReachable (battleMap pf) (posX (startPos u)) (posY (startPos u))"
    and "startPos u = targetPos u"
  shows "sequentialBranch (battleMap pf) u = AlreadyAtTarget \<and>
         processUnit env pf u =
           (u\<lparr>path := [startPos u], pathFound := True\<rparr>,
            pf\<lparr>occupiedPositionsAtTime :=
                 updateOccupiedPositions (battleMap pf) (occupiedPositionsAtTime pf) [startPos u] 0\<rparr>) \<and>
         isOccupiedAt (occupiedPositionsAtTime (snd (processUnit env pf u))) 0 (startPos u) \<and>
         (\<forall>k < length (units pf). units pf ! k = u \<longrightarrow>
            resUnits (fst (findPathsSequential env pf)) ! k = u\<lparr>path := [startPos u], pathFound := True\<rparr> \<and>
            isOccupiedAt (occupiedPositionsAtTime (snd (findPathsSequential env pf))) 0 (startPos u))"
proof -
  have br: "\<And>bm. bm = battleMap pf \<Longrightarrow> sequentialBranch bm u = AlreadyAtTarget"
    using assms by (simp add: sequentialBranch_def)
  have pu: "\<And>p. battleMap p = battleMap pf \<Longrightarrow>
     processUnit env p u =
           (u\<lparr>path := [startPos u], pathFound := True\<rparr>,
            p\<lparr>occupiedPositionsAtTime :=
                 updateOccupiedPositions (battleMap p) (occupiedPositionsAtTime p) [startPos u] 0\<rparr>)"
    using br by (simp add: processUnit_def)
  have oc: "\<And>p. battleMap p = battleMap pf \<Longrightarrow>
     isOccupiedAt (occupiedPositionsAtTime (snd (processUnit env p u))) 0 (startPos u)"
    using assms(1) by (simp add: pu isOccupiedAt_upd)
  have loop: "\<forall>k < length (units pf). units pf ! k = u \<longrightarrow>
            resUnits (fst (findPathsSequential env pf)) ! k = u\<lparr>path := [startPos u], pathFound := True\<rparr> \<and>
            isOccupiedAt (occupiedPositionsAtTime (snd (findPathsSequential env pf))) 0 (startPos u)"
  proof (intro allI impI)
    fix k assume k: "k < length (units pf)" and u: "units pf ! k = u"
    let ?pf0 = "clearOccupiedPositions pf"
    obtain r pf' where l: "sequentialLoop env ?pf0 (units pf) = (r, pf')"
      by (cases "sequentialLoop env ?pf0 (units pf)")
    from sequentialLoop_nth[OF k, of ?pf0 env] u l obtain pfk where
      b: "battleMap pfk = battleMap ?pf0" and
      n: "r ! k = fst (processUnit env pfk u)" and
      o: "\<forall>t q. isOccupiedAt (occupiedPositionsAtTime (snd (processUnit env pfk u))) t q \<longrightarrow>
             isOccupiedAt (occupiedPositionsAtTime pf') t q"
      by auto
    from b have b': "battleMap pfk = battleMap pf" by (simp add: clearOccupiedPositions_def)
    from n pu[OF b'] have "r ! k = u\<lparr>path := [startPos u], pathFound := True\<rparr>" by simp
    moreover from o oc[OF b'] have "isOccupiedAt (occupiedPositionsAtTime pf') 0 (startPos u)" by blast
    ultimately show "resUnits (fst (findPathsSequential env pf)) ! k = u\<lparr>path := [startPos u], pathFound := True\<rparr> \<and>
            isOccupiedAt (occupiedPositionsAtTime (snd (findPathsSequential env pf))) 0 (startPos u)"
      using l by (simp add: findPathsSequential_def)
  qed
  from br[OF refl] pu[OF refl] oc[OF refl] loop show ?thesis by blast
qed

text \<open>The corridor with a third unit that starts on its target \<open>(1,0)\<close>.\<close>

definition stayingFinder :: MultiUnitPathFinder where
  "stayingFinder = addUnit corridorFinder 3 (Position 1 0) (Position 1 0)"

lemma stayingFinder_eval:
  "units stayingFinder ! 2 = mkUnit 3 (Position 1 0) (Position 1 0) \<and>
   length (units stayingFinder) = 3 \<and>
   battleMap stayingFinder = corridorMap \<and>
   isValidPosition corridorMap 1 0 \<and> isReachable corridorMap 1 0 \<and>
   resUnits (fst (findPathsSequential stablePlatform stayingFinder)) ! 2
     = \<lparr>unitId = 3, startPos = Position 1 0, targetPos = Position 1 0, path = [Position 1 0],
        pathFound = True\<rparr>"
  by code_simp

theorem sequential_start_equals_goal_witness:
  "isValidPosition (battleMap stayingFinder) 1 0 \<and> isReachable (battleMap stayingFinder) 1 0 \<and>
   sequentialBranch (battleMap stayingFinder) (mkUnit 3 (Position 1 0) (Position 1 0)) = AlreadyAtTarget \<and>
   resUnits (fst (findPathsSequential stablePlatform stayingFinder)) ! 2
     = \<lparr>unitId = 3, startPos = Position 1 0, targetPos = Position 1 0, path = [Position 1 0],
        pathFound = True\<rparr> \<and>
   isOccupiedAt (occupiedPositionsAtTime (snd (findPathsSequential stablePlatform stayingFinder))) 0
     (Position 1 0)"
proof -
  let ?u = "mkUnit 3 (Position 1 0) (Position 1 0)"
  have v: "isValidPosition (battleMap stayingFinder) (posX (startPos ?u)) (posY (startPos ?u))"
      "isReachable (battleMap stayingFinder) (posX (startPos ?u)) (posY (startPos ?u))"
      "startPos ?u = targetPos ?u"
    using stayingFinder_eval by (simp_all add: mkUnit_def)
  from sequential_start_equals_goal[OF v, of stablePlatform]
  have b: "sequentialBranch (battleMap stayingFinder) ?u = AlreadyAtTarget"
    and l: "\<forall>k < length (units stayingFinder). units stayingFinder ! k = ?u \<longrightarrow>
            resUnits (fst (findPathsSequential stablePlatform stayingFinder)) ! k
              = ?u\<lparr>path := [startPos ?u], pathFound := True\<rparr> \<and>
            isOccupiedAt (occupiedPositionsAtTime (snd (findPathsSequential stablePlatform stayingFinder))) 0
              (startPos ?u)"
    by blast+
  from l[rule_format, of 2] stayingFinder_eval
  have "isOccupiedAt (occupiedPositionsAtTime (snd (findPathsSequential stablePlatform stayingFinder))) 0
          (Position 1 0)"
    by (simp add: mkUnit_def)
  with b v stayingFinder_eval show ?thesis by (simp add: mkUnit_def)
qed

section \<open>The table of positions per step\<close>

text \<open>A unit that is marked found has a path.\<close>

definition foundHasPath :: "Unit list \<Rightarrow> bool" where
  "foundHasPath us = (\<forall>u \<in> set us. pathFound u \<longrightarrow> path u \<noteq> [])"

lemma foldl_max_length:
  "a \<le> foldl (\<lambda>m p. max m (length p)) a ps \<and>
   (\<forall>p \<in> set ps. length p \<le> foldl (\<lambda>m p. max m (length p)) a ps) \<and>
   (foldl (\<lambda>m p. max m (length p)) a ps = a \<or>
    (\<exists>p \<in> set ps. length p = foldl (\<lambda>m p. max m (length p)) a ps))"
proof (induction ps arbitrary: a)
  case Nil
  then show ?case by simp
next
  case (Cons q ps)
  from Cons.IH[of "max a (length q)"] show ?case
    by (auto simp: max_def split: if_splits)
qed

lemma maxPathLength_upper: "p \<in> set ps \<Longrightarrow> length p \<le> maxPathLength ps"
  using foldl_max_length[of 0 ps] by (simp add: maxPathLength_def)

lemma maxPathLength_attained:
  "ps \<noteq> [] \<Longrightarrow> \<exists>p \<in> set ps. length p = maxPathLength ps"
proof -
  assume ne: "ps \<noteq> []"
  from foldl_max_length[of 0 ps]
  consider "maxPathLength ps = 0" | "\<exists>p \<in> set ps. length p = maxPathLength ps"
    by (auto simp: maxPathLength_def)
  then show ?thesis
  proof cases
    case 1
    from ne obtain p where p: "p \<in> set ps" by (cases ps) auto
    with maxPathLength_upper[OF p] 1 show ?thesis by auto
  qed
qed

lemma length_extendPath:
  "p \<noteq> [] \<Longrightarrow> length p \<le> n \<Longrightarrow> length (extendPath n p) = n"
  by (simp add: extendPath_def)

lemma nth_extendPath:
  "p \<noteq> [] \<Longrightarrow> t < n \<Longrightarrow> extendPath n p ! t = (if t < length p then p ! t else last p)"
  by (simp add: extendPath_def nth_append)

lemma transposePaths_same_length:
  assumes "ps \<noteq> []" and "\<forall>p \<in> set ps. length p = n" and "0 < n"
  shows "transposePaths ps = map (\<lambda>t. map (\<lambda>p. p ! t) ps) [0 ..< n]"
proof -
  from assms have h: "hd ps \<noteq> []" "length (hd ps) = n"
    by (cases ps; auto)+
  have "\<And>t. t < n \<Longrightarrow> filter (\<lambda>p. t < length p) ps = ps"
    using assms(2) by (simp add: filter_id_conv)
  then show ?thesis
    using assms(1) h by (simp add: transposePaths_def)
qed

lemma generateStepByStepPositions_found:
  assumes "foundHasPath us" and "filter pathFound us \<noteq> []"
  shows "length (generateStepByStepPositions us) = maxPathLength (map path (filter pathFound us)) \<and>
         (\<forall>t < maxPathLength (map path (filter pathFound us)).
            generateStepByStepPositions us ! t =
              map (\<lambda>u. if t < length (path u) then path u ! t else last (path u)) (filter pathFound us))"
proof -
  let ?F = "filter pathFound us"
  let ?ps = "map path ?F"
  let ?n = "maxPathLength ?ps"
  let ?ext = "map (extendPath ?n) ?ps"
  from assms(1) have ne: "\<forall>p \<in> set ?ps. p \<noteq> []" by (auto simp: foundHasPath_def)
  from assms(2) have psne: "?ps \<noteq> []" by simp
  from maxPathLength_attained[OF psne] ne have pos: "0 < ?n" by fastforce
  have len: "\<forall>p \<in> set ?ext. length p = ?n"
    using ne maxPathLength_upper[of _ ?ps] by (auto simp: length_extendPath)
  have extne: "?ext \<noteq> []" using psne by simp
  have g: "generateStepByStepPositions us = map (\<lambda>t. map (\<lambda>p. p ! t) ?ext) [0 ..< ?n]"
    using psne transposePaths_same_length[OF extne len pos]
    by (simp add: generateStepByStepPositions_def Let_def)
  have "\<And>t. t < ?n \<Longrightarrow> map (\<lambda>p. p ! t) ?ext =
          map (\<lambda>u. if t < length (path u) then path u ! t else last (path u)) ?F"
    using ne by (auto simp: nth_extendPath)
  with g show ?thesis by simp
qed

lemma generateStepByStepPositions_none:
  "filter pathFound us = [] \<Longrightarrow> generateStepByStepPositions us = []"
  by (simp add: generateStepByStepPositions_def)

lemma processUnit_foundHasPath:
  "pathFound (fst (processUnit env pf u)) \<longrightarrow> path (fst (processUnit env pf u)) \<noteq> []"
  by (simp add: processUnit_def Let_def split: SequentialBranch.splits)

lemma sequentialLoop_foundHasPath: "foundHasPath (fst (sequentialLoop env pf us))"
proof (induction us arbitrary: pf)
  case Nil
  then show ?case by (simp add: foundHasPath_def)
next
  case (Cons u us)
  obtain u' pf' where p: "processUnit env pf u = (u', pf')" by (cases "processUnit env pf u")
  obtain r pf'' where l: "sequentialLoop env pf' us = (r, pf'')" by (cases "sequentialLoop env pf' us")
  from processUnit_foundHasPath[of env pf u] Cons.IH[of pf'] p l show ?case
    by (simp add: foundHasPath_def)
qed

lemma findPathsSequential_shape:
  "foundHasPath (resUnits (fst (findPathsSequential env pf))) \<and>
   totalSteps (fst (findPathsSequential env pf)) = 0 \<and>
   stepByStepPositions (fst (findPathsSequential env pf)) = []"
proof -
  obtain r pf' where l: "sequentialLoop env (clearOccupiedPositions pf) (units pf) = (r, pf')"
    by (cases "sequentialLoop env (clearOccupiedPositions pf) (units pf)")
  from sequentialLoop_foundHasPath[of env "clearOccupiedPositions pf" "units pf"] l
  show ?thesis by (simp add: findPathsSequential_def)
qed

lemma findPathsPriorityBased_shape:
  "foundHasPath (resUnits (fst (findPathsPriorityBased env pf))) \<and>
   totalSteps (fst (findPathsPriorityBased env pf)) = 0 \<and>
   stepByStepPositions (fst (findPathsPriorityBased env pf)) = []"
  by (simp add: findPathsPriorityBased_eq findPathsSequential_shape)

lemma cooperativePass_Cons:
  "\<exists>u' pf'. fst (cooperativePass env pf (u # us)) = u' # fst (cooperativePass env pf' us) \<and>
            (pathFound u' \<longrightarrow> path u' \<noteq> [])"
proof -
  let ?tm = "unitTempMap (battleMap pf) u"
  let ?p = "findPathAStar env ?tm (moveDirections pf) (mapStartPos ?tm) (mapTargetPos ?tm)"
  show ?thesis
  proof (cases "?p = []")
    case True
    then have "fst (cooperativePass env pf (u # us)) = u\<lparr>pathFound := False\<rparr> # fst (cooperativePass env pf us)"
      by (simp add: Let_def case_prod_beta)
    then show ?thesis by (intro exI[of _ "u\<lparr>pathFound := False\<rparr>"] exI[of _ pf]) simp
  next
    case False
    let ?pf = "pf\<lparr>occupiedPositionsAtTime :=
                      updateOccupiedPositions (battleMap pf) (occupiedPositionsAtTime pf) ?p 0\<rparr>"
    from False have "fst (cooperativePass env pf (u # us))
         = u\<lparr>path := ?p, pathFound := True\<rparr> # fst (cooperativePass env ?pf us)"
      by (simp add: Let_def case_prod_beta)
    then show ?thesis using False
      by (intro exI[of _ "u\<lparr>path := ?p, pathFound := True\<rparr>"] exI[of _ ?pf]) simp
  qed
qed

lemma cooperativePass_foundHasPath: "foundHasPath (fst (cooperativePass env pf us))"
proof (induction us arbitrary: pf)
  case Nil
  then show ?case by (simp add: foundHasPath_def)
next
  case (Cons u us)
  from cooperativePass_Cons[of env pf u us] obtain u' pf' where
    "fst (cooperativePass env pf (u # us)) = u' # fst (cooperativePass env pf' us)"
    "pathFound u' \<longrightarrow> path u' \<noteq> []" by blast
  with Cons.IH[of pf'] show ?case by (simp add: foundHasPath_def)
qed

lemma cooperativeAttempts_foundHasPath:
  "attempt < maxAttempts \<or> foundHasPath us \<Longrightarrow>
   foundHasPath (fst (cooperativeAttempts env attempt us pf))"
proof (induction env attempt us pf rule: cooperativeAttempts.induct)
  case (1 env attempt us pf)
  show ?case
  proof (cases "attempt < maxAttempts")
    case False
    with "1.prems" show ?thesis by (subst cooperativeAttempts.simps) simp
  next
    case True
    define start where "start = (if attempt > 0 then (stdShuffle env (nat attempt) us, clearOccupiedPositions pf)
                           else (us, pf))"
    obtain us0 pf0 where s: "start = (us0, pf0)" by (cases start)
    obtain us1 pf1 allFound where c: "cooperativePass env pf0 us0 = (us1, pf1, allFound)"
      by (cases "cooperativePass env pf0 us0")
    have good: "foundHasPath us1"
      using cooperativePass_foundHasPath[of env pf0 us0] c by simp
    show ?thesis
    proof (cases allFound)
      case t: True
      then show ?thesis
        using True s c good
        by (subst cooperativeAttempts.simps) (simp add: start_def[symmetric])
    next
      case f: False
      have "foundHasPath (fst (cooperativeAttempts env (attempt + 1) us1 pf1))"
        using "1.IH"[OF True s[unfolded start_def, symmetric] refl c[symmetric] refl] f good
        by simp
      then show ?thesis
        using True s c f
        by (subst cooperativeAttempts.simps) (simp add: start_def[symmetric])
    qed
  qed
qed

lemma findPathsCooperative_shape:
  "foundHasPath (resUnits (fst (findPathsCooperative env pf))) \<and>
   totalSteps (fst (findPathsCooperative env pf)) = 0 \<and>
   stepByStepPositions (fst (findPathsCooperative env pf)) = []"
proof -
  obtain us found pf' where
    c: "cooperativeAttempts env 0 (units pf) (clearOccupiedPositions pf) = (us, found, pf')"
    by (cases "cooperativeAttempts env 0 (units pf) (clearOccupiedPositions pf)")
  have "foundHasPath (fst (cooperativeAttempts env 0 (units pf) (clearOccupiedPositions pf)))"
    by (rule cooperativeAttempts_foundHasPath) (simp add: maxAttempts_def)
  with c show ?thesis by (simp add: findPathsCooperative_def)
qed

lemma foundHasPath_update:
  assumes "foundHasPath us" and "pathFound u \<longrightarrow> path u \<noteq> []"
  shows "foundHasPath (us[k := u])"
  unfolding foundHasPath_def
proof (intro ballI)
  fix v assume "v \<in> set (us[k := u])"
  then have "v = u \<or> v \<in> set us"
    using set_update_subset_insert[of us k u] by blast
  with assms show "pathFound v \<longrightarrow> path v \<noteq> []"
    by (auto simp: foundHasPath_def)
qed

lemma insertWait_cases:
  "insertWait us c = us \<or>
   (\<exists>k p q. insertWait us c = us[k := (us ! k)\<lparr>path := p @ [q] @ drop (nat (fst c)) (path (us ! k))\<rparr>])"
  unfolding insertWait_def Let_def by (simp only: split: if_split) blast

lemma insertWait_foundHasPath: "foundHasPath us \<Longrightarrow> foundHasPath (insertWait us c)"
proof -
  assume g: "foundHasPath us"
  from insertWait_cases[of us c] show ?thesis
  proof
    assume "insertWait us c = us"
    with g show ?thesis by simp
  next
    assume "\<exists>k p q. insertWait us c = us[k := (us ! k)\<lparr>path := p @ [q] @ drop (nat (fst c)) (path (us ! k))\<rparr>]"
    then obtain k p q where
      i: "insertWait us c = us[k := (us ! k)\<lparr>path := p @ [q] @ drop (nat (fst c)) (path (us ! k))\<rparr>]"
      by blast
    show ?thesis unfolding i
      by (rule foundHasPath_update[OF g]) simp
  qed
qed

lemma foldl_insertWait_foundHasPath: "foundHasPath us \<Longrightarrow> foundHasPath (foldl insertWait us cs)"
  by (induction cs arbitrary: us) (simp_all add: insertWait_foundHasPath)

lemma findPathsWithWaiting_shape:
  "foundHasPath (resUnits (fst (findPathsWithWaiting env pf))) \<and>
   totalSteps (fst (findPathsWithWaiting env pf)) = 0 \<and>
   stepByStepPositions (fst (findPathsWithWaiting env pf)) = []"
proof -
  obtain r pf' where s: "findPathsSequential env pf = (r, pf')" by (cases "findPathsSequential env pf")
  from findPathsSequential_shape[of env pf] s
  have "foundHasPath (resUnits r)" "totalSteps r = 0" "stepByStepPositions r = []" by simp_all
  then show ?thesis
    using s by (simp add: findPathsWithWaiting_def Let_def foldl_insertWait_foundHasPath)
qed

lemma strategy_shape:
  "foundHasPath (resUnits (fst (case strategy pf of
                     SEQUENTIAL \<Rightarrow> findPathsSequential env pf
                   | PRIORITY_BASED \<Rightarrow> findPathsPriorityBased env pf
                   | COOPERATIVE \<Rightarrow> findPathsCooperative env pf
                   | WAIT_AND_RETRY \<Rightarrow> findPathsWithWaiting env pf))) \<and>
   totalSteps (fst (case strategy pf of
                     SEQUENTIAL \<Rightarrow> findPathsSequential env pf
                   | PRIORITY_BASED \<Rightarrow> findPathsPriorityBased env pf
                   | COOPERATIVE \<Rightarrow> findPathsCooperative env pf
                   | WAIT_AND_RETRY \<Rightarrow> findPathsWithWaiting env pf)) = 0 \<and>
   stepByStepPositions (fst (case strategy pf of
                     SEQUENTIAL \<Rightarrow> findPathsSequential env pf
                   | PRIORITY_BASED \<Rightarrow> findPathsPriorityBased env pf
                   | COOPERATIVE \<Rightarrow> findPathsCooperative env pf
                   | WAIT_AND_RETRY \<Rightarrow> findPathsWithWaiting env pf)) = []"
  by (cases "strategy pf")
     (simp_all add: findPathsSequential_shape findPathsPriorityBased_shape
        findPathsCooperative_shape findPathsWithWaiting_shape)

lemma list_ex_filter: "list_ex P xs \<longleftrightarrow> filter P xs \<noteq> []"
  by (induction xs) auto

text \<open>
  C7. In the result \<open>r\<close> of \<open>findPathsForAllUnits\<close>, whatever the strategy, with \<open>F\<close> the
  units of the result that are marked found, in their order: when there is none, the
  table is empty and \<open>totalSteps\<close> is 0; otherwise \<open>totalSteps\<close> is the length of the
  longest path of \<open>F\<close> and the number of rows of the table, and row \<open>t\<close> lists, for the
  units of \<open>F\<close> only, the cell of the path at \<open>t\<close>, or the path's last cell once the
  path has ended.
\<close>

theorem stepByStep_table_of_found_units:
  assumes "r = fst (findPathsForAllUnits env pf)" and "F = filter pathFound (resUnits r)"
  shows "(F = [] \<longrightarrow> stepByStepPositions r = [] \<and> totalSteps r = 0) \<and>
         (F \<noteq> [] \<longrightarrow>
            (\<exists>u \<in> set F. int (length (path u)) = totalSteps r) \<and>
            (\<forall>u \<in> set F. int (length (path u)) \<le> totalSteps r) \<and>
            int (length (stepByStepPositions r)) = totalSteps r \<and>
            (\<forall>t < length (stepByStepPositions r).
               stepByStepPositions r ! t =
                 map (\<lambda>u. if t < length (path u) then path u ! t else last (path u)) F))"
proof (cases "units pf = [] \<or> \<not> isMapLoaded (battleMap pf)")
  case True
  then have "r = emptyResult" using assms(1) by (auto simp: findPathsForAllUnits_def)
  then show ?thesis using assms(2) by (simp add: emptyResult_def)
next
  case False
  define res where "res = fst (case strategy pf of
                     SEQUENTIAL \<Rightarrow> findPathsSequential env pf
                   | PRIORITY_BASED \<Rightarrow> findPathsPriorityBased env pf
                   | COOPERATIVE \<Rightarrow> findPathsCooperative env pf
                   | WAIT_AND_RETRY \<Rightarrow> findPathsWithWaiting env pf)"
  have shape: "foundHasPath (resUnits res)" "totalSteps res = 0" "stepByStepPositions res = []"
    using strategy_shape[where pf = pf and env = env] by (simp_all add: res_def)
  let ?steps = "generateStepByStepPositions (resUnits res)"
  have r: "r = (if list_ex pathFound (resUnits res)
                then res\<lparr>stepByStepPositions := ?steps, totalSteps := int (length ?steps)\<rparr>
                else res)"
    using False assms(1)
    by (simp add: findPathsForAllUnits_def Let_def case_prod_beta res_def)
  then have ru: "resUnits r = resUnits res" by simp
  show ?thesis
  proof (cases "F = []")
    case True
    then have "\<not> list_ex pathFound (resUnits res)"
      using assms(2) ru by (simp add: list_ex_filter)
    with r shape True show ?thesis by simp
  next
    case ne: False
    then have fne: "filter pathFound (resUnits res) \<noteq> []" using assms(2) ru by simp
    then have r': "stepByStepPositions r = ?steps" "totalSteps r = int (length ?steps)"
      using r by (simp_all add: list_ex_filter)
    have F: "F = filter pathFound (resUnits res)" using assms(2) ru by simp
    from generateStepByStepPositions_found[OF shape(1) fne]
    have len: "length ?steps = maxPathLength (map path F)"
      and rows: "\<forall>t < maxPathLength (map path F).
            ?steps ! t = map (\<lambda>u. if t < length (path u) then path u ! t else last (path u)) F"
      unfolding F by blast+
    have "map path F \<noteq> []" using ne by simp
    from maxPathLength_attained[OF this]
    have att: "\<exists>u \<in> set F. int (length (path u)) = totalSteps r"
      unfolding r' len by auto
    have up: "\<forall>u \<in> set F. int (length (path u)) \<le> totalSteps r"
      unfolding r' len using maxPathLength_upper[of _ "map path F"] by auto
    from att up rows len r' ne show ?thesis by simp
  qed
qed

text \<open>The corridor with a third unit whose target \<open>(9,9)\<close> is outside the map.\<close>

definition partialFinder :: MultiUnitPathFinder where
  "partialFinder = addUnit corridorFinder 3 (Position 1 0) (Position 9 9)"

lemma partialFinder_eval:
  "map pathFound (resUnits (fst (findPathsForAllUnits stablePlatform partialFinder))) = [True, True, False] \<and>
   map path (filter pathFound (resUnits (fst (findPathsForAllUnits stablePlatform partialFinder))))
     = [[Position 0 0, Position 1 0, Position 2 0],
        [Position 2 0, Position 2 0, Position 1 0, Position 0 0]] \<and>
   stepByStepPositions (fst (findPathsForAllUnits stablePlatform partialFinder))
     = [[Position 0 0, Position 2 0], [Position 1 0, Position 2 0],
        [Position 2 0, Position 1 0], [Position 2 0, Position 0 0]] \<and>
   totalSteps (fst (findPathsForAllUnits stablePlatform partialFinder)) = 4"
  by code_simp

theorem stepByStep_table_of_found_units_witness:
  "map pathFound (resUnits (fst (findPathsForAllUnits stablePlatform partialFinder))) = [True, True, False] \<and>
   map path (filter pathFound (resUnits (fst (findPathsForAllUnits stablePlatform partialFinder))))
     = [[Position 0 0, Position 1 0, Position 2 0],
        [Position 2 0, Position 2 0, Position 1 0, Position 0 0]] \<and>
   stepByStepPositions (fst (findPathsForAllUnits stablePlatform partialFinder)) ! 3
     = [Position 2 0, Position 0 0] \<and>
   int (length (stepByStepPositions (fst (findPathsForAllUnits stablePlatform partialFinder))))
     = totalSteps (fst (findPathsForAllUnits stablePlatform partialFinder)) \<and>
   totalSteps (fst (findPathsForAllUnits stablePlatform partialFinder)) = 4"
  using stepByStep_table_of_found_units
          [OF refl refl, of stablePlatform partialFinder]
        partialFinder_eval
  by simp

section \<open>The cooperative strategy and the reservations\<close>

text \<open>
  The paths of a cooperative pass do not depend on the occupancy the pass starts from or
  writes: the plain search never reads it.
\<close>

lemma cooperativePass_ignores_occupancy:
  "battleMap pf1 = battleMap pf2 \<Longrightarrow> moveDirections pf1 = moveDirections pf2 \<Longrightarrow>
   fst (cooperativePass env pf1 us) = fst (cooperativePass env pf2 us)"
proof (induction us arbitrary: pf1 pf2)
  case Nil
  then show ?case by simp
next
  case (Cons u us)
  let ?tm = "unitTempMap (battleMap pf2) u"
  let ?p = "findPathAStar env ?tm (moveDirections pf2) (mapStartPos ?tm) (mapTargetPos ?tm)"
  let ?n = "\<lambda>pf. if ?p \<noteq> [] then pf\<lparr>occupiedPositionsAtTime :=
                      updateOccupiedPositions (battleMap pf) (occupiedPositionsAtTime pf) ?p 0\<rparr> else pf"
  have a: "\<And>pf. battleMap pf = battleMap pf2 \<Longrightarrow> moveDirections pf = moveDirections pf2 \<Longrightarrow>
      fst (cooperativePass env pf (u # us)) =
        (if ?p \<noteq> [] then u\<lparr>path := ?p, pathFound := True\<rparr> else u\<lparr>pathFound := False\<rparr>)
          # fst (cooperativePass env (?n pf) us)"
    by (simp add: Let_def case_prod_beta)
  have "fst (cooperativePass env (?n pf1) us) = fst (cooperativePass env (?n pf2) us)"
    by (rule Cons.IH) (simp_all add: Cons.prems)
  with a[of pf1] a[of pf2] Cons.prems show ?case by simp
qed

lemma cooperative_corridor_eval:
  "resUnits (fst (findPathsCooperative stablePlatform corridorFinder)) =
     [\<lparr>unitId = 1, startPos = Position 0 0, targetPos = Position 2 0,
       path = [Position 0 0, Position 1 0, Position 2 0], pathFound = True\<rparr>,
      \<lparr>unitId = 2, startPos = Position 2 0, targetPos = Position 0 0,
       path = [Position 2 0, Position 1 0, Position 0 0], pathFound = True\<rparr>] \<and>
   allPathsFound (fst (findPathsCooperative stablePlatform corridorFinder))"
  by code_simp

lemma cooperative_conflict_eval:
  "hasTemporalConflict
     (updateOccupiedPositions corridorMap Map.empty [Position 0 0, Position 1 0, Position 2 0] 0)
     [Position 2 0, Position 1 0, Position 0 0] 0"
  by code_simp

lemma sequential_stable_corridor_eval:
  "resUnits (fst (findPathsSequential stablePlatform corridorFinder)) =
     [\<lparr>unitId = 1, startPos = Position 0 0, targetPos = Position 2 0,
       path = [Position 0 0, Position 1 0, Position 2 0], pathFound = True\<rparr>,
      \<lparr>unitId = 2, startPos = Position 2 0, targetPos = Position 0 0,
       path = [Position 2 0, Position 2 0, Position 1 0, Position 0 0], pathFound = True\<rparr>] \<and>
   \<not> hasTemporalConflict
     (updateOccupiedPositions corridorMap Map.empty [Position 0 0, Position 1 0, Position 2 0] 0)
     [Position 2 0, Position 2 0, Position 1 0, Position 0 0] 0"
  by code_simp

text \<open>
  C2, on the corridor with two units that go opposite ways. The cooperative strategy
  plans unit 1 and reserves its path; the path it then returns for unit 2 enters the
  cell \<open>(1,0)\<close> at time 1, which unit 1 holds by then, and the pass counts as a success.
  The sequential strategy on the same input makes unit 2 wait one step.
\<close>

theorem cooperative_search_ignores_reservations:
  "resUnits (fst (findPathsCooperative stablePlatform corridorFinder)) =
     [\<lparr>unitId = 1, startPos = Position 0 0, targetPos = Position 2 0,
       path = [Position 0 0, Position 1 0, Position 2 0], pathFound = True\<rparr>,
      \<lparr>unitId = 2, startPos = Position 2 0, targetPos = Position 0 0,
       path = [Position 2 0, Position 1 0, Position 0 0], pathFound = True\<rparr>] \<and>
   allPathsFound (fst (findPathsCooperative stablePlatform corridorFinder)) \<and>
   hasTemporalConflict
     (updateOccupiedPositions corridorMap Map.empty [Position 0 0, Position 1 0, Position 2 0] 0)
     [Position 2 0, Position 1 0, Position 0 0] 0 \<and>
   path (resUnits (fst (findPathsSequential stablePlatform corridorFinder)) ! 1)
     = [Position 2 0, Position 2 0, Position 1 0, Position 0 0]"
  using cooperative_corridor_eval cooperative_conflict_eval sequential_stable_corridor_eval
  by simp

end
